theory Spec2Isabelle
  imports Main "HOL-Library.Word" "HOL-Library.Sublist"
begin

section \<open>JavaScript strings\<close>

text \<open>
  A JavaScript string is a finite sequence of 16-bit code units. String literals of the
  source are embedded with \<open>js\<close>, single characters with \<open>ch\<close>; both read an
  ASCII literal as the code units of the same numbers.
\<close>

type_synonym jschar = "16 word"
type_synonym jsstring = "jschar list"

definition ch :: "char \<Rightarrow> jschar" where
  "ch c = of_char c"

definition js :: "string \<Rightarrow> jsstring" where
  "js s = map ch s"

subsection \<open>Regular expressions of the source that are anchored at the end\<close>

text \<open>
  \<open>String.prototype.replace\<close> with a regular expression that has no \<open>g\<close> flag
  replaces the leftmost match only: the engine tries the start positions from left to
  right and takes the first at which the pattern matches. Every pattern below has the
  shape \<open>X$\<close> and is replaced by the empty string, so the result is the text before
  the first position at which \<open>X$\<close> matches, and the whole text when there is none.
  \<open>strip_tail m\<close> is that search for a pattern whose anchored match is decided by
  \<open>m\<close> on the remaining text.
\<close>

fun strip_tail :: "(jsstring \<Rightarrow> bool) \<Rightarrow> jsstring \<Rightarrow> jsstring" where
  "strip_tail m [] = []"
| "strip_tail m (c # cs) = (if m (c # cs) then [] else c # strip_tail m cs)"

text \<open>
  \<open>/\?[^?]*$/\<close>: a question mark, then the longest run of characters other than the
  question mark, then the end of the input. The run is greedy and giving characters back
  cannot reach the end of the input, so the pattern matches here exactly when no question
  mark follows.
\<close>

fun query_tail :: "jsstring \<Rightarrow> bool" where
  "query_tail [] = False"
| "query_tail (c # cs) = (c = ch CHR ''?'' \<and> list_all (\<lambda>d. d \<noteq> ch CHR ''?'') cs)"

text \<open>
  \<open>/#[^#;]*$/\<close>: a hash sign followed, up to the end of the input, only by characters
  that are neither a hash sign nor a semicolon.
\<close>

fun anchor_tail :: "jsstring \<Rightarrow> bool" where
  "anchor_tail [] = False"
| "anchor_tail (c # cs) =
     (c = ch CHR ''#'' \<and> list_all (\<lambda>d. d \<noteq> ch CHR ''#'' \<and> d \<noteq> ch CHR '';'') cs)"

section \<open>uiUtil.js: removeUrlParameters\<close>

text \<open>
  \<^verbatim>\<open>
  function removeUrlParameters(url) {
      var strippedUrl = url.replace(/\?[^?]*$/, '');
      strippedUrl = strippedUrl.replace(/#[^#;]*$/, '');
      return strippedUrl;
  }
  \<close>
\<close>

definition removeUrlParameters :: "jsstring \<Rightarrow> jsstring" where
  "removeUrlParameters url =
     (let strippedUrl = strip_tail query_tail url;
          strippedUrl = strip_tail anchor_tail strippedUrl
      in strippedUrl)"


section \<open>JavaScript values, exceptions and built-in functions\<close>

text \<open>
  The values that flow through the functions below are \<open>undefined\<close>, \<open>null\<close>,
  booleans, strings and the integer 25 (the default number of search results).
  \<open>JNum\<close> stands for an integer-valued number.
\<close>

datatype jsval = JUndefined | JNull | JBool bool | JNum int | JStr jsstring

text \<open>
  An exception of the source is a value of \<open>js_error\<close>. A function that changes state
  returns an \<open>outcome\<close>: \<open>Done s\<close> when it returned normally in state \<open>s\<close>,
  \<open>Thrown e s\<close> when it was left by the exception \<open>e\<close>, the state being \<open>s\<close> at
  that moment (assignments made before a throw stay made).
\<close>

datatype js_error = TypeError | URIError | SyntaxError | InvalidCharacterError

datatype 's outcome = Done 's | Thrown js_error 's

text \<open>ToBoolean: what \<open>if (v)\<close>, \<open>!v\<close>, \<open>v || w\<close> and \<open>v && w\<close> test.\<close>

fun truthy :: "jsval \<Rightarrow> bool" where
  "truthy JUndefined = False"
| "truthy JNull = False"
| "truthy (JBool b) = b"
| "truthy (JNum n) = (n \<noteq> 0)"
| "truthy (JStr s) = (s \<noteq> [])"

definition js_or :: "jsval \<Rightarrow> jsval \<Rightarrow> jsval" where
  "js_or v w = (if truthy v then v else w)"

text \<open>ToString. An integer is printed in decimal, with a minus sign when negative.\<close>

function nat_digits :: "nat \<Rightarrow> jsstring" where
  "nat_digits n =
     (if n < 10 then [of_nat (48 + n)] else nat_digits (n div 10) @ [of_nat (48 + n mod 10)])"
  by pat_completeness auto
termination
  by (relation "measure id") auto

fun to_string :: "jsval \<Rightarrow> jsstring" where
  "to_string JUndefined = js ''undefined''"
| "to_string JNull = js ''null''"
| "to_string (JBool b) = (if b then js ''true'' else js ''false'')"
| "to_string (JNum n) = (if n < 0 then ch CHR ''-'' # nat_digits (nat (- n)) else nat_digits (nat n))"
| "to_string (JStr s) = s"

text \<open>
  A JavaScript object with primitive values, as the map of its own properties. Reading a
  property that is not there gives \<open>undefined\<close>. An assignment \<open>o[k] = v\<close> creates or
  overwrites the own property \<open>k\<close>, except for the key \<open>__proto__\<close>: that
  assignment runs the prototype setter of \<open>Object.prototype\<close>, which ignores a value
  that is not an object, so no property is written.
\<close>

type_synonym jsobject = "jsstring \<rightharpoonup> jsval"

definition get_prop :: "jsobject \<Rightarrow> jsstring \<Rightarrow> jsval" where
  "get_prop obj k = (case obj k of None \<Rightarrow> JUndefined | Some v \<Rightarrow> v)"

definition set_prop :: "jsobject \<Rightarrow> jsstring \<Rightarrow> jsval \<Rightarrow> jsobject" where
  "set_prop obj k v = (if k = js ''__proto__'' then obj else obj(k \<mapsto> v))"

subsection \<open>Character classes of regular expressions\<close>

text \<open>
  The dot of a regular expression (without the \<open>s\<close> flag) matches every code unit but
  the four line terminators; \<open>\s\<close> matches white space and line terminators.
\<close>

definition line_terminator :: "jschar \<Rightarrow> bool" where
  "line_terminator c = (c = 0x0A \<or> c = 0x0D \<or> c = 0x2028 \<or> c = 0x2029)"

definition white_space :: "jschar \<Rightarrow> bool" where
  "white_space c =
     (c = 0x09 \<or> c = 0x0A \<or> c = 0x0B \<or> c = 0x0C \<or> c = 0x0D \<or> c = 0x20 \<or> c = 0xA0
      \<or> c = 0x1680 \<or> (0x2000 \<le> c \<and> c \<le> 0x200A) \<or> c = 0x2028 \<or> c = 0x2029
      \<or> c = 0x202F \<or> c = 0x205F \<or> c = 0x3000 \<or> c = 0xFEFF)"

text \<open>
  With the \<open>i\<close> flag (and no \<open>u\<close> flag) two code units match when their
  canonical forms are equal; the canonical form of a code unit is its upper case, except
  that a code unit from 128 on is never mapped below 128. Against an ASCII pattern
  character this is equality up to the case of the ASCII letters.
\<close>

definition ascii_upper :: "jschar \<Rightarrow> jschar" where
  "ascii_upper c = (if ch CHR ''a'' \<le> c \<and> c \<le> ch CHR ''z'' then c - 32 else c)"

fun starts_with_ci :: "jsstring \<Rightarrow> jsstring \<Rightarrow> bool" where
  "starts_with_ci [] s = True"
| "starts_with_ci (p # ps) [] = False"
| "starts_with_ci (p # ps) (c # cs) = (ascii_upper c = ascii_upper p \<and> starts_with_ci ps cs)"

fun contains_ci :: "jsstring \<Rightarrow> jsstring \<Rightarrow> bool" where
  "contains_ci p [] = (p = [])"
| "contains_ci p (c # cs) = (starts_with_ci p (c # cs) \<or> contains_ci p cs)"

text \<open>\<open>contains p s\<close>: the text \<open>p\<close> occurs in \<open>s\<close> (\<open>s.indexOf(p) !== -1\<close>).\<close>

fun contains :: "jsstring \<Rightarrow> jsstring \<Rightarrow> bool" where
  "contains p [] = (p = [])"
| "contains p (c # cs) = (prefix p (c # cs) \<or> contains p cs)"

subsection \<open>Regular expressions built at run time\<close>

text \<open>
  Two places of the source build a regular expression from a string at run time
  (\<open>new RegExp(...)\<close> in \<open>getSetting\<close>, \<open>String.prototype.search\<close> with a
  string argument in \<open>applyAppTheme\<close>), so the characters of that string are read as
  pattern syntax. A string without the syntax characters
  \<^verbatim>\<open>^ $ \ * + ? ( ) [ ] { } |\<close> is a sequence of single-character atoms: every
  character matches itself, and the dot matches any character but a line terminator.
  \<open>simple_pattern\<close> recognises these strings and \<open>pattern_here\<close> matches one at the
  head of a text, returning the text after the match.

  For every other pattern the result is the browser's: \<open>regexp_result\<close> is what its
  engine answers (a syntax error, no match, or the captured groups 1, 2, ... of the
  leftmost match, a group that took no part being \<open>undefined\<close>; the matched text
  itself, element 0 of the match array, is used nowhere in the source), and the state
  records below carry the engine as a function from the pattern source and the text to
  that answer.
\<close>

definition syntax_character :: "jschar \<Rightarrow> bool" where
  "syntax_character c = (c \<in> set (js ''^$*+?()[]{}|'') \<or> c = 0x5C)"

definition simple_pattern :: "jsstring \<Rightarrow> bool" where
  "simple_pattern p = list_all (\<lambda>c. \<not> syntax_character c) p"

fun pattern_here :: "jsstring \<Rightarrow> jsstring \<Rightarrow> jsstring option" where
  "pattern_here [] s = Some s"
| "pattern_here (p # ps) [] = None"
| "pattern_here (p # ps) (c # cs) =
     (if (if p = ch CHR ''.'' then \<not> line_terminator c else c = p)
      then pattern_here ps cs else None)"

fun pattern_search :: "jsstring \<Rightarrow> jsstring \<Rightarrow> nat option" where
  "pattern_search p [] = (if p = [] then Some 0 else None)"
| "pattern_search p (c # cs) =
     (if pattern_here p (c # cs) \<noteq> None then Some 0
      else map_option Suc (pattern_search p cs))"

datatype regexp_result = PatternSyntaxError | NoMatch | Match "jsval list"

type_synonym regexp_engine = "jsstring \<Rightarrow> jsstring \<Rightarrow> regexp_result"

subsection \<open>encodeURIComponent and decodeURIComponent\<close>

text \<open>
  The two built-in functions, after the \<open>Encode\<close> and \<open>Decode\<close> operations of
  ECMA-262. \<open>encodeURIComponent\<close> keeps the unreserved characters (letters, digits and
  \<^verbatim>\<open>- _ . ! ~ * ' ( )\<close>) and writes every other code point as the octets of its
  UTF-8 encoding, each as a percent sign and two upper-case hexadecimal digits; it throws
  a \<open>URIError\<close> on a surrogate code unit that is not part of a pair.
  \<open>decodeURIComponent\<close> copies every code unit but the percent sign, reads
  \<open>%XX\<close> as an octet and a run of such octets as the UTF-8 encoding of one code
  point; it throws a \<open>URIError\<close> when the two hexadecimal digits are missing or the
  octets are not a valid UTF-8 encoding.
\<close>

definition alnum :: "jschar \<Rightarrow> bool" where
  "alnum c = ((ch CHR ''a'' \<le> c \<and> c \<le> ch CHR ''z'') \<or> (ch CHR ''A'' \<le> c \<and> c \<le> ch CHR ''Z'')
              \<or> (ch CHR ''0'' \<le> c \<and> c \<le> ch CHR ''9''))"

definition uri_unreserved :: "jschar \<Rightarrow> bool" where
  "uri_unreserved c = (alnum c \<or> c \<in> set (js ''-_.!~*()'') \<or> c = 0x27)"

definition hex_digit :: "nat \<Rightarrow> jschar" where
  "hex_digit n = (if n < 10 then of_nat (48 + n) else of_nat (55 + n))"

definition hex_value :: "jschar \<Rightarrow> nat option" where
  "hex_value c =
     (if ch CHR ''0'' \<le> c \<and> c \<le> ch CHR ''9'' then Some (unat c - 48)
      else if ch CHR ''A'' \<le> c \<and> c \<le> ch CHR ''F'' then Some (unat c - 55)
      else if ch CHR ''a'' \<le> c \<and> c \<le> ch CHR ''f'' then Some (unat c - 87)
      else None)"

definition percent :: "nat \<Rightarrow> jsstring" where
  "percent b = [ch CHR ''%'', hex_digit (b div 16), hex_digit (b mod 16)]"

definition utf8_octets :: "nat \<Rightarrow> nat list" where
  "utf8_octets cp =
     (if cp < 0x80 then [cp]
      else if cp < 0x800 then [0xC0 + cp div 64, 0x80 + cp mod 64]
      else if cp < 0x10000 then [0xE0 + cp div 4096, 0x80 + cp div 64 mod 64, 0x80 + cp mod 64]
      else [0xF0 + cp div 262144, 0x80 + cp div 4096 mod 64, 0x80 + cp div 64 mod 64,
            0x80 + cp mod 64])"

definition high_surrogate :: "jschar \<Rightarrow> bool" where
  "high_surrogate c = (0xD800 \<le> c \<and> c \<le> 0xDBFF)"

definition low_surrogate :: "jschar \<Rightarrow> bool" where
  "low_surrogate c = (0xDC00 \<le> c \<and> c \<le> 0xDFFF)"

definition prepend :: "jsstring \<Rightarrow> js_error + jsstring \<Rightarrow> js_error + jsstring" where
  "prepend s r = (case r of Inl e \<Rightarrow> Inl e | Inr t \<Rightarrow> Inr (s @ t))"

fun encodeURIComponent :: "jsstring \<Rightarrow> js_error + jsstring" where
  "encodeURIComponent [] = Inr []"
| "encodeURIComponent [c] =
     (if uri_unreserved c then Inr [c]
      else if high_surrogate c \<or> low_surrogate c then Inl URIError
      else Inr (concat (map percent (utf8_octets (unat c)))))"
| "encodeURIComponent (c # d # ds) =
     (if uri_unreserved c then prepend [c] (encodeURIComponent (d # ds))
      else if high_surrogate c then
        (if low_surrogate d
         then prepend (concat (map percent (utf8_octets
                 (0x10000 + (unat c - 0xD800) * 1024 + (unat d - 0xDC00)))))
                (encodeURIComponent ds)
         else Inl URIError)
      else if low_surrogate c then Inl URIError
      else prepend (concat (map percent (utf8_octets (unat c)))) (encodeURIComponent (d # ds)))"

text \<open>\<open>read_octet\<close> reads \<open>%XX\<close> at the head of a text.\<close>

fun read_octet :: "jsstring \<Rightarrow> (nat \<times> jsstring) option" where
  "read_octet (p # h # l # rest) =
     (if p = ch CHR ''%'' then
        (case (hex_value h, hex_value l) of
           (Some x, Some y) \<Rightarrow> Some (16 * x + y, rest)
         | _ \<Rightarrow> None)
      else None)"
| "read_octet s = None"

text \<open>\<open>read_continuation n\<close> reads \<open>n\<close> further octets of the form \<open>10xxxxxx\<close>.\<close>

fun read_continuation :: "nat \<Rightarrow> jsstring \<Rightarrow> (nat list \<times> jsstring) option" where
  "read_continuation 0 s = Some ([], s)"
| "read_continuation (Suc n) s =
     (case read_octet s of
        None \<Rightarrow> None
      | Some (b, rest) \<Rightarrow>
          if 0x80 \<le> b \<and> b < 0xC0 then
            (case read_continuation n rest of
               None \<Rightarrow> None
             | Some (bs, rest') \<Rightarrow> Some (b # bs, rest'))
          else None)"

text \<open>
  The code point of a lead octet and its continuation octets, when they are its shortest
  encoding and it is no surrogate and at most \<open>0x10FFFF\<close>.
\<close>

definition utf8_code_point :: "nat \<Rightarrow> nat list \<Rightarrow> nat option" where
  "utf8_code_point b bs =
     (case bs of
        [b1] \<Rightarrow>
          (let cp = (b - 0xC0) * 64 + (b1 - 0x80)
           in if 0x80 \<le> cp then Some cp else None)
      | [b1, b2] \<Rightarrow>
          (let cp = (b - 0xE0) * 4096 + (b1 - 0x80) * 64 + (b2 - 0x80)
           in if 0x800 \<le> cp \<and> \<not> (0xD800 \<le> cp \<and> cp \<le> 0xDFFF) then Some cp else None)
      | [b1, b2, b3] \<Rightarrow>
          (let cp = (b - 0xF0) * 262144 + (b1 - 0x80) * 4096 + (b2 - 0x80) * 64 + (b3 - 0x80)
           in if 0x10000 \<le> cp \<and> cp \<le> 0x10FFFF then Some cp else None)
      | _ \<Rightarrow> None)"

definition utf16_units :: "nat \<Rightarrow> jsstring" where
  "utf16_units cp =
     (if cp < 0x10000 then [of_nat cp]
      else [of_nat (0xD800 + (cp - 0x10000) div 1024), of_nat (0xDC00 + (cp - 0x10000) mod 1024)])"

lemma read_octet_shorter: "read_octet s = Some (b, rest) \<Longrightarrow> length rest < length s"
  by (induction s rule: read_octet.induct) (auto split: if_splits option.splits)

lemma read_continuation_shorter:
  "read_continuation n s = Some (bs, rest) \<Longrightarrow> length rest \<le> length s"
proof (induction n arbitrary: s bs rest)
  case 0
  then show ?case by simp
next
  case (Suc n)
  then show ?case
    by (fastforce split: option.splits if_splits dest: read_octet_shorter)
qed

function decodeURIComponent :: "jsstring \<Rightarrow> js_error + jsstring" where
  "decodeURIComponent [] = Inr []"
| "decodeURIComponent (c # cs) =
     (if c \<noteq> ch CHR ''%'' then prepend [c] (decodeURIComponent cs)
      else
        (case read_octet (c # cs) of
           None \<Rightarrow> Inl URIError
         | Some (b, rest) \<Rightarrow>
             if b < 0x80 then prepend [of_nat b] (decodeURIComponent rest)
             else if b < 0xC0 \<or> 0xF8 \<le> b then Inl URIError
             else
               (case read_continuation (if b < 0xE0 then 1 else if b < 0xF0 then 2 else 3) rest of
                  None \<Rightarrow> Inl URIError
                | Some (bs, rest') \<Rightarrow>
                    (case utf8_code_point b bs of
                       None \<Rightarrow> Inl URIError
                     | Some cp \<Rightarrow> prepend (utf16_units cp) (decodeURIComponent rest')))))"
  by pat_completeness auto
termination
proof (relation "measure length")
  show "wf (measure length)" by simp
next
  fix c :: jschar and cs
  show "(cs, c # cs) \<in> measure length" by simp
next
  fix c :: jschar and cs x2 b rest
  assume "read_octet (c # cs) = Some x2" "(b, rest) = x2"
  then have "length rest < length (c # cs)"
    using read_octet_shorter [of "c # cs" b rest] by simp
  then show "(rest, c # cs) \<in> measure length" by simp
next
  fix c :: jschar and cs x2 b rest x2a bs rest' cp
  assume "read_octet (c # cs) = Some x2" "(b, rest) = x2"
    and "read_continuation (if b < 0xE0 then 1 else if b < 0xF0 then 2 else 3) rest = Some x2a"
    and "(bs, rest') = x2a"
  then have "length rest < length (c # cs)" "length rest' \<le> length rest"
    using read_octet_shorter [of "c # cs" b rest]
      read_continuation_shorter [of _ rest bs rest'] by simp_all
  then show "(rest', c # cs) \<in> measure length" by simp
qed

section \<open>init.js: the settings store\<close>

text \<open>
  What \<open>init.js\<close> reads and writes outside its own variables: the entries of
  \<open>localStorage\<close> (a map from keys to strings), the cookies of the page, the query
  string and the address of the page, whether the browser has the Service Worker API,
  and the hidden frames the script appends to the document. \<open>regExpEngine\<close> is the
  browser's answer for regular expressions built at run time that are no simple pattern.
  Limits of the browser's storage (its quota, the size and the number of cookies) are not
  modelled: every write is stored.
\<close>

record browser =
  localStorage :: "jsstring \<rightharpoonup> jsstring"
  cookieJar :: "(jsstring \<times> jsstring) list"
  regExpEngine :: regexp_engine
  locationSearch :: jsstring
  locationHref :: jsstring
  serviceWorkerInNavigator :: bool
  kiwixCommFrames :: "jsstring list"

subsection \<open>document.cookie\<close>

text \<open>
  The cookies of the page are name-value pairs in the order of their creation. Reading
  \<open>document.cookie\<close> gives \<open>name=value\<close> for each, joined by a semicolon and a
  space. Assigning a string to \<open>document.cookie\<close> sets one cookie (RFC 6265, 5.2): the
  text before the first semicolon is split at its first equals sign into name and value,
  both without surrounding spaces and tabs; a text without equals sign or with an empty
  name is ignored; a cookie of that name gets the new value, and a new cookie goes to the
  end. The attributes after the first semicolon are not interpreted: the only one that
  \<open>setSetting\<close> passes is an expiry date in the year 9999, so the cookie is kept.
\<close>

fun cookie_string :: "(jsstring \<times> jsstring) list \<Rightarrow> jsstring" where
  "cookie_string [] = []"
| "cookie_string [(n, v)] = n @ js ''='' @ v"
| "cookie_string ((n, v) # c # cs) = n @ js ''='' @ v @ js ''; '' @ cookie_string (c # cs)"

definition wsp :: "jschar \<Rightarrow> bool" where
  "wsp c = (c = 0x20 \<or> c = 0x09)"

definition trim_wsp :: "jsstring \<Rightarrow> jsstring" where
  "trim_wsp s = rev (dropWhile wsp (rev (dropWhile wsp s)))"

fun jar_store :: "jsstring \<Rightarrow> jsstring \<Rightarrow> (jsstring \<times> jsstring) list \<Rightarrow> (jsstring \<times> jsstring) list" where
  "jar_store n v [] = [(n, v)]"
| "jar_store n v ((m, w) # cs) = (if m = n then (n, v) # cs else (m, w) # jar_store n v cs)"

definition cookie_assign :: "jsstring \<Rightarrow> (jsstring \<times> jsstring) list \<Rightarrow> (jsstring \<times> jsstring) list" where
  "cookie_assign s jar =
     (let pair = takeWhile (\<lambda>c. c \<noteq> ch CHR '';'') s in
      if ch CHR ''='' \<notin> set pair then jar
      else
        let name = trim_wsp (takeWhile (\<lambda>c. c \<noteq> ch CHR ''='') pair);
            val = trim_wsp (tl (dropWhile (\<lambda>c. c \<noteq> ch CHR ''='') pair))
        in if name = [] then jar else jar_store name val jar)"

subsection \<open>The pattern of getSetting\<close>

text \<open>
  \<open>getSetting\<close> matches \<open>document.cookie\<close> against a pattern built from the name of
  the setting:
  \<^verbatim>\<open>new RegExp('(?:^|;)\\s*' + name + '=([^;]+)(?:;|$)')\<close>.
  For a name that is a simple pattern the functions below are that match. The engine tries
  the start positions from left to right; at the first position the alternative \<open>^\<close>
  comes before the alternative \<open>;\<close>, at every later position only a semicolon can
  start a match. Then \<open>\s*\<close> takes the longest run of white space and gives
  characters back one at a time while the rest fails; then come the name, the equals
  sign, and as group 1 the longest run of characters other than the semicolon, which must
  not be empty (it ends at a semicolon or at the end of the text, so the last part of the
  pattern always matches after it).
\<close>

definition cookie_value_here :: "jsstring \<Rightarrow> jsstring \<Rightarrow> jsstring option" where
  "cookie_value_here name s =
     (case pattern_here name s of
        None \<Rightarrow> None
      | Some [] \<Rightarrow> None
      | Some (e # t) \<Rightarrow>
          if e = ch CHR ''='' \<and> takeWhile (\<lambda>c. c \<noteq> ch CHR '';'') t \<noteq> []
          then Some (takeWhile (\<lambda>c. c \<noteq> ch CHR '';'') t) else None)"

fun after_spaces :: "jsstring \<Rightarrow> jsstring \<Rightarrow> jsstring option" where
  "after_spaces name [] = cookie_value_here name []"
| "after_spaces name (c # cs) =
     (if white_space c then
        (case after_spaces name cs of
           Some v \<Rightarrow> Some v
         | None \<Rightarrow> cookie_value_here name (c # cs))
      else cookie_value_here name (c # cs))"

definition after_semicolon :: "jsstring \<Rightarrow> jsstring \<Rightarrow> jsstring option" where
  "after_semicolon name s =
     (case s of [] \<Rightarrow> None | c # cs \<Rightarrow> if c = ch CHR '';'' then after_spaces name cs else None)"

fun cookie_scan :: "jsstring \<Rightarrow> jsstring \<Rightarrow> jsstring option" where
  "cookie_scan name [] = None"
| "cookie_scan name (c # cs) =
     (case after_semicolon name (c # cs) of
        Some v \<Rightarrow> Some v
      | None \<Rightarrow> cookie_scan name cs)"

definition cookie_capture :: "jsstring \<Rightarrow> jsstring \<Rightarrow> jsstring option" where
  "cookie_capture name s =
     (case after_spaces name s of
        Some v \<Rightarrow> Some v
      | None \<Rightarrow> cookie_scan name s)"

definition cookie_match :: "browser \<Rightarrow> jsstring \<Rightarrow> regexp_result" where
  "cookie_match b name =
     (if simple_pattern name then
        (case cookie_capture name (cookie_string (cookieJar b)) of
           None \<Rightarrow> NoMatch
         | Some v \<Rightarrow> Match [JStr v])
      else regExpEngine b (js ''(?:^|;)'' @ [0x5C] @ js ''s*'' @ name @ js ''=([^;]+)(?:;|$)'')
             (cookie_string (cookieJar b)))"

subsection \<open>getSetting and setSetting\<close>

text \<open>
  \<^verbatim>\<open>
  function getSetting (name) {
      var result;
      if (params.storeType === 'cookie') {
          var regexp = new RegExp('(?:^|;)\\s*' + name + '=([^;]+)(?:;|$)');
          result = document.cookie.match(regexp);
          result = result && result.length > 1 ? decodeURIComponent(result[1]) : null;
      } else if (params.storeType === 'local_storage') {
          result = localStorage.getItem(params.keyPrefix + name);
      }
      return result === null || result === 'undefined' ? null
           : result === 'true' ? true : result === 'false' ? false : result;
  }
  \<close>
  \<open>stored_setting\<close> is the variable \<open>result\<close> before the last line,
  \<open>setting_value\<close> is the last line.
\<close>

definition stored_setting :: "jsobject \<Rightarrow> browser \<Rightarrow> jsstring \<Rightarrow> js_error + jsval" where
  "stored_setting params b name =
     (if get_prop params (js ''storeType'') = JStr (js ''cookie'') then
        (case cookie_match b name of
           PatternSyntaxError \<Rightarrow> Inl SyntaxError
         | NoMatch \<Rightarrow> Inr JNull
         | Match groups \<Rightarrow>
             (case groups of
                [] \<Rightarrow> Inr JNull
              | g # gs \<Rightarrow>
                  (case decodeURIComponent (to_string g) of
                     Inl e \<Rightarrow> Inl e
                   | Inr s \<Rightarrow> Inr (JStr s))))
      else if get_prop params (js ''storeType'') = JStr (js ''local_storage'') then
        (case localStorage b (to_string (get_prop params (js ''keyPrefix'')) @ name) of
           None \<Rightarrow> Inr JNull
         | Some s \<Rightarrow> Inr (JStr s))
      else Inr JUndefined)"

definition setting_value :: "jsval \<Rightarrow> jsval" where
  "setting_value result =
     (if result = JNull \<or> result = JStr (js ''undefined'') then JNull
      else if result = JStr (js ''true'') then JBool True
      else if result = JStr (js ''false'') then JBool False
      else result)"

definition getSetting :: "jsobject \<Rightarrow> browser \<Rightarrow> jsstring \<Rightarrow> js_error + jsval" where
  "getSetting params b name =
     (case stored_setting params b name of
        Inl e \<Rightarrow> Inl e
      | Inr result \<Rightarrow> Inr (setting_value result))"

text \<open>
  \<^verbatim>\<open>
  function setSetting (name, val) {
      if (params.storeType === 'cookie') {
          document.cookie = encodeURIComponent(name) + '=' + encodeURIComponent(val)
              + ';expires=Fri, 31 Dec 9999 23:59:59 GMT';
      }
      // Make Boolean value
      val = val === 'false' ? false : val === 'true' ? true : val;
      if (params.storeType === 'local_storage') {
          localStorage.setItem(params.keyPrefix + name, val);
      }
  }
  \<close>
  \<open>encodeURIComponent\<close> and \<open>localStorage.setItem\<close> turn \<open>val\<close> into a string
  first.
\<close>

definition setSetting :: "jsobject \<Rightarrow> jsstring \<Rightarrow> jsval \<Rightarrow> browser \<Rightarrow> browser outcome" where
  "setSetting params name val b =
     (case
        (if get_prop params (js ''storeType'') = JStr (js ''cookie'') then
           (case encodeURIComponent name of
              Inl e \<Rightarrow> Thrown e b
            | Inr n \<Rightarrow>
                (case encodeURIComponent (to_string val) of
                   Inl e \<Rightarrow> Thrown e b
                 | Inr v \<Rightarrow>
                     Done (b\<lparr>cookieJar :=
                       cookie_assign (n @ js ''='' @ v @ js '';expires=Fri, 31 Dec 9999 23:59:59 GMT'')
                         (cookieJar b)\<rparr>)))
         else Done b)
      of
        Thrown e b' \<Rightarrow> Thrown e b'
      | Done b' \<Rightarrow>
          (let val = (if val = JStr (js ''false'') then JBool False
                      else if val = JStr (js ''true'') then JBool True else val)
           in if get_prop params (js ''storeType'') = JStr (js ''local_storage'') then
                Done (b'\<lparr>localStorage :=
                  (localStorage b')(to_string (get_prop params (js ''keyPrefix'')) @ name
                     \<mapsto> to_string val)\<rparr>)
              else Done b'))"

section \<open>init.js: the parameters of the app\<close>

subsection \<open>Defaults and stored settings\<close>

text \<open>
  The script fills the global object \<open>params\<close>: four constants first, then one
  parameter per stored setting.
  \<^verbatim>\<open>
  params['appVersion'] = '3.10.0';
  params['PWAServer'] = 'https://browser-extension.kiwix.org/current/';
  params['storeType'] = getBestAvailableStorageAPI();
  params['keyPrefix'] = 'kiwixjs-';
  \<close>
  \<open>getBestAvailableStorageAPI\<close> probes the browser (it writes and removes a test
  entry in each storage) and answers \<open>'none'\<close>, \<open>'cookie'\<close> or
  \<open>'local_storage'\<close>; its answer is the argument \<open>storeType\<close> here.
\<close>

definition initial_params :: "jsstring \<Rightarrow> jsobject" where
  "initial_params storeType =
     (let params = Map.empty;
          params = set_prop params (js ''appVersion'') (JStr (js ''3.10.0''));
          params = set_prop params (js ''PWAServer'')
                     (JStr (js ''https://browser-extension.kiwix.org/current/''));
          params = set_prop params (js ''storeType'') (JStr storeType);
          params = set_prop params (js ''keyPrefix'') (JStr (js ''kiwixjs-''))
      in params)"

text \<open>
  \<^verbatim>\<open>
  params['hideActiveContentWarning'] = getSetting('hideActiveContentWarning') === true;
  params['showUIAnimations'] = getSetting('showUIAnimations') !== false;
  params['maxSearchResultsSize'] = getSetting('maxSearchResultsSize') || 25;
  params['assetsCache'] = getSetting('assetsCache') !== false;
  params['appCache'] = getSetting('appCache') !== false;
  params['appTheme'] = getSetting('appTheme') || 'light';
  params['useHomeKeyToFocusSearchBar'] = getSetting('useHomeKeyToFocusSearchBar') === true;
  params['openExternalLinksInNewTabs'] = getSetting('openExternalLinksInNewTabs') !== false;
  params['overrideBrowserLanguage'] = getSetting('languageOverride');
  params['disableDragAndDrop'] = getSetting('disableDragAndDrop') === true;
  params['referrerExtensionURL'] = getSetting('referrerExtensionURL');
  params['defaultModeChangeAlertDisplayed'] = getSetting('defaultModeChangeAlertDisplayed');
  params['contentInjectionMode'] = getSetting('contentInjectionMode') ||
      (('serviceWorker' in navigator) ? 'serviceworker' : 'jquery');
  params['useCanvasElementsForWebpTranscoding'] = null;
  \<close>
  Each line is an entry of \<open>stored_params\<close>: the parameter, the setting it is read
  from, and what is made of the value read.
\<close>

definition is_true :: "jsval \<Rightarrow> jsval" where
  "is_true v = JBool (v = JBool True)"

definition not_false :: "jsval \<Rightarrow> jsval" where
  "not_false v = JBool (v \<noteq> JBool False)"

definition stored_params :: "bool \<Rightarrow> (jsstring \<times> jsstring \<times> (jsval \<Rightarrow> jsval)) list" where
  "stored_params serviceWorker =
     [(js ''hideActiveContentWarning'', js ''hideActiveContentWarning'', is_true),
      (js ''showUIAnimations'', js ''showUIAnimations'', not_false),
      (js ''maxSearchResultsSize'', js ''maxSearchResultsSize'', \<lambda>v. js_or v (JNum 25)),
      (js ''assetsCache'', js ''assetsCache'', not_false),
      (js ''appCache'', js ''appCache'', not_false),
      (js ''appTheme'', js ''appTheme'', \<lambda>v. js_or v (JStr (js ''light''))),
      (js ''useHomeKeyToFocusSearchBar'', js ''useHomeKeyToFocusSearchBar'', is_true),
      (js ''openExternalLinksInNewTabs'', js ''openExternalLinksInNewTabs'', not_false),
      (js ''overrideBrowserLanguage'', js ''languageOverride'', \<lambda>v. v),
      (js ''disableDragAndDrop'', js ''disableDragAndDrop'', is_true),
      (js ''referrerExtensionURL'', js ''referrerExtensionURL'', \<lambda>v. v),
      (js ''defaultModeChangeAlertDisplayed'', js ''defaultModeChangeAlertDisplayed'', \<lambda>v. v),
      (js ''contentInjectionMode'', js ''contentInjectionMode'',
         \<lambda>v. js_or v (if serviceWorker then JStr (js ''serviceworker'') else JStr (js ''jquery'')))]"

fun load_settings ::
  "(jsstring \<times> jsstring \<times> (jsval \<Rightarrow> jsval)) list \<Rightarrow> browser \<Rightarrow> jsobject \<Rightarrow> jsobject outcome" where
  "load_settings [] b params = Done params"
| "load_settings ((key, name, f) # rest) b params =
     (case getSetting params b name of
        Inl e \<Rightarrow> Thrown e params
      | Inr v \<Rightarrow> load_settings rest b (set_prop params key (f v)))"

definition load_params :: "jsstring \<Rightarrow> browser \<Rightarrow> jsobject outcome" where
  "load_params storeType b =
     (case load_settings (stored_params (serviceWorkerInNavigator b)) b (initial_params storeType) of
        Thrown e params \<Rightarrow> Thrown e params
      | Done params \<Rightarrow> Done (set_prop params (js ''useCanvasElementsForWebpTranscoding'') JNull))"

subsection \<open>overrideParams\<close>

text \<open>
  \<^verbatim>\<open>
  (function overrideParams () {
      var regexpUrlParams = /[?&]([^=]+)=([^&]+)/g;
      var matches = regexpUrlParams.exec(window.location.search);
      while (matches) {
          if (matches[1] && matches[2]) {
              var paramKey = decodeURIComponent(matches[1]);
              var paramVal = decodeURIComponent(matches[2]);
              if (paramKey !== 'title') {
                  console.debug('Setting key-pair: ' + paramKey + ':' + paramVal);
                  // Make values Boolean if 'true'/'false'
                  paramVal = paramVal === 'true' || (paramVal === 'false' ? false : paramVal);
                  setSetting(paramKey, paramVal);
                  params[paramKey] = paramVal;
              }
          }
          matches = regexpUrlParams.exec(window.location.search);
      }
      if (params.referrerExtensionURL && ~window.location.href.indexOf(params.PWAServer)) {
          var message = '?PWA_launch=success';
          var frame = document.createElement('iframe');
          frame.id = 'kiwixComm';
          frame.style.display = 'none';
          document.body.appendChild(frame);
          frame.src = params.referrerExtensionURL + '/www/index.html' + message;
          setTimeout(function () { ... kiwixComm.remove() ... }, 3000);
      }
  })();
  \<close>

  The pattern \<open>/[?&]([^=]+)=([^&]+)/g\<close> at the head of a text: a question mark or an
  ampersand; as group 1 the longest run of characters other than the equals sign, which
  must not be empty and must be followed by an equals sign; as group 2 the longest run of
  characters other than the ampersand, which must not be empty. (A shorter group 1 is
  followed by a character that is no equals sign, so giving characters back never helps.)
  \<open>param_here\<close> returns the two groups and the text after the match.
\<close>

definition param_here :: "jsstring \<Rightarrow> (jsstring \<times> jsstring \<times> jsstring) option" where
  "param_here s =
     (case s of
        [] \<Rightarrow> None
      | c # cs \<Rightarrow>
          if c = ch CHR ''?'' \<or> c = ch CHR ''&'' then
            (let k = takeWhile (\<lambda>d. d \<noteq> ch CHR ''='') cs;
                 r = dropWhile (\<lambda>d. d \<noteq> ch CHR ''='') cs
             in if k = [] \<or> r = [] then None
                else
                  (let v = takeWhile (\<lambda>d. d \<noteq> ch CHR ''&'') (tl r)
                   in if v = [] then None
                      else Some (k, v, dropWhile (\<lambda>d. d \<noteq> ch CHR ''&'') (tl r))))
          else None)"

text \<open>
  \<open>exec\<close> with the \<open>g\<close> flag finds the leftmost match at or after the end of the
  previous one; \<open>url_params\<close> lists the groups of all the matches the loop sees.
\<close>

fun next_param :: "jsstring \<Rightarrow> (jsstring \<times> jsstring \<times> jsstring) option" where
  "next_param [] = None"
| "next_param (c # cs) =
     (case param_here (c # cs) of
        Some m \<Rightarrow> Some m
      | None \<Rightarrow> next_param cs)"

lemma param_here_shorter: "param_here s = Some (k, v, rest) \<Longrightarrow> length rest < length s"
proof -
  assume a: "param_here s = Some (k, v, rest)"
  then obtain c cs where s: "s = c # cs" by (cases s) (auto simp: param_here_def)
  let ?r = "dropWhile (\<lambda>d. d \<noteq> ch CHR ''='') cs"
  have "length (dropWhile (\<lambda>d. d \<noteq> ch CHR ''&'') (tl ?r)) \<le> length (tl ?r)"
    by (rule length_dropWhile_le)
  also have "\<dots> \<le> length ?r" by simp
  also have "\<dots> \<le> length cs" by (rule length_dropWhile_le)
  finally have "length (dropWhile (\<lambda>d. d \<noteq> ch CHR ''&'') (tl ?r)) \<le> length cs" .
  moreover have "rest = dropWhile (\<lambda>d. d \<noteq> ch CHR ''&'') (tl ?r)"
    using a s by (auto simp: param_here_def Let_def split: if_splits)
  ultimately show ?thesis using s by simp
qed

lemma next_param_shorter: "next_param s = Some (k, v, rest) \<Longrightarrow> length rest < length s"
proof (induction s)
  case Nil
  then show ?case by simp
next
  case (Cons c cs)
  show ?case
  proof (cases "param_here (c # cs)")
    case None
    with Cons show ?thesis by fastforce
  next
    case (Some m)
    with Cons.prems have "param_here (c # cs) = Some (k, v, rest)" by simp
    then show ?thesis by (rule param_here_shorter)
  qed
qed

function url_params :: "jsstring \<Rightarrow> (jsstring \<times> jsstring) list" where
  "url_params s =
     (case next_param s of
        None \<Rightarrow> []
      | Some (k, v, rest) \<Rightarrow> (k, v) # url_params rest)"
  by pat_completeness auto
termination
proof (relation "measure length")
  show "wf (measure length)" by simp
next
  fix s x2 k y v rest
  assume "next_param s = Some x2" "(k, y) = x2" "(v, rest) = y"
  then have "next_param s = Some (k, v, rest)" by simp
  then show "(rest, s) \<in> measure length" using next_param_shorter by simp
qed

text \<open>
  \<open>paramVal === 'true' || (paramVal === 'false' ? false : paramVal)\<close>
\<close>

definition param_value :: "jsstring \<Rightarrow> jsval" where
  "param_value paramVal =
     js_or (JBool (paramVal = js ''true''))
       (if paramVal = js ''false'' then JBool False else JStr paramVal)"

text \<open>
  The body of the loop for one match, on the pair of \<open>params\<close> and the browser.
  (\<open>console.debug\<close> only prints.)
\<close>

definition override_param ::
  "jsstring \<times> jsstring \<Rightarrow> jsobject \<times> browser \<Rightarrow> (jsobject \<times> browser) outcome" where
  "override_param m st =
     (if fst m \<noteq> [] \<and> snd m \<noteq> [] then
        (case decodeURIComponent (fst m) of
           Inl e \<Rightarrow> Thrown e st
         | Inr paramKey \<Rightarrow>
             (case decodeURIComponent (snd m) of
                Inl e \<Rightarrow> Thrown e st
              | Inr paramVal \<Rightarrow>
                  if paramKey \<noteq> js ''title'' then
                    (let paramVal = param_value paramVal
                     in case setSetting (fst st) paramKey paramVal (snd st) of
                          Thrown e b \<Rightarrow> Thrown e (fst st, b)
                        | Done b \<Rightarrow> Done (set_prop (fst st) paramKey paramVal, b))
                  else Done st))
      else Done st)"

fun override_loop ::
  "(jsstring \<times> jsstring) list \<Rightarrow> jsobject \<times> browser \<Rightarrow> (jsobject \<times> browser) outcome" where
  "override_loop [] st = Done st"
| "override_loop (m # ms) st =
     (case override_param m st of
        Thrown e st' \<Rightarrow> Thrown e st'
      | Done st' \<Rightarrow> override_loop ms st')"

text \<open>
  The message to the extension: a hidden frame is appended to the document and removed
  three seconds later; \<open>kiwixCommFrames\<close> lists the addresses of the frames appended.
\<close>

definition send_launch_message :: "jsobject \<times> browser \<Rightarrow> jsobject \<times> browser" where
  "send_launch_message st =
     (if truthy (get_prop (fst st) (js ''referrerExtensionURL''))
         \<and> contains (to_string (get_prop (fst st) (js ''PWAServer''))) (locationHref (snd st))
      then (fst st, (snd st)\<lparr>kiwixCommFrames := kiwixCommFrames (snd st)
              @ [to_string (get_prop (fst st) (js ''referrerExtensionURL''))
                 @ js ''/www/index.html'' @ js ''?PWA_launch=success'']\<rparr>)
      else st)"

definition overrideParams :: "jsobject \<times> browser \<Rightarrow> (jsobject \<times> browser) outcome" where
  "overrideParams st =
     (case override_loop (url_params (locationSearch (snd st))) st of
        Thrown e st' \<Rightarrow> Thrown e st'
      | Done st' \<Rightarrow> Done (send_launch_message st'))"

subsection \<open>The whole sequence\<close>

text \<open>
  After \<open>overrideParams\<close> comes
  \<^verbatim>\<open>
  params.appCache = params.contentInjectionMode === 'jquery' ? true : params.appCache;
  \<close>
  The rest of the script copies parameters into the controls of the page and loads the
  WebP decoder; it assigns no parameter and calls neither \<open>getSetting\<close> nor
  \<open>setSetting\<close>.
\<close>

definition init :: "jsstring \<Rightarrow> browser \<Rightarrow> (jsobject \<times> browser) outcome" where
  "init storeType b =
     (case load_params storeType b of
        Thrown e params \<Rightarrow> Thrown e (params, b)
      | Done params \<Rightarrow>
          (case overrideParams (params, b) of
             Thrown e st \<Rightarrow> Thrown e st
           | Done st \<Rightarrow>
               Done (set_prop (fst st) (js ''appCache'')
                       (if get_prop (fst st) (js ''contentInjectionMode'') = JStr (js ''jquery'')
                        then JBool True else get_prop (fst st) (js ''appCache'')),
                     snd st)))"

section \<open>uiUtil.js: the page\<close>

text \<open>
  The functions of \<open>uiUtil.js\<close> work on the document of the app. An element has a list
  of classes, the \<open>display\<close> property of its style, its content (\<open>markup\<close>), its event listeners
  and, when it has one, the click listeners of the descendant that the selector
  \<open>button[data-hide]\<close> finds (the dismiss button of an alert). A listener is a closure
  of the source; it is represented by a tag that names it:
  \<^item> \<open>HideElement i\<close>: \<open>function () { e.style.display = 'none'; }\<close> for the element
    \<open>e\<close> with the id \<open>i\<close>;
  \<^item> \<open>HighlightOption i\<close>: the click listener that \<open>displayActiveContentWarning\<close>
    gives the hyperlink \<open>i\<close> (it marks an option of the configuration tab);
  \<^item> \<open>ReturnToArticle\<close>: the click listener of \<open>showReturnLink\<close>;
  \<^item> \<open>PressButtonOnEnter c\<close>: the \<open>keyup\<close> listener of \<open>systemAlert\<close>, which on
    the Enter key focuses and clicks the approve button when \<open>c\<close> holds and the close
    button otherwise.
\<close>

datatype handler =
    HideElement jsstring
  | HighlightOption jsstring
  | ReturnToArticle
  | PressButtonOnEnter bool

datatype node_content = TextContent jsstring | InnerHTML jsstring

record element =
  classList :: "jsstring list"
  display :: jsstring
  markup :: node_content
  listeners :: "(jsstring \<times> handler) list"
  dataHideButton :: "handler list option"

text \<open>
  The document inside the article frame (\<open>iframe.contentDocument\<close>): its title; its
  elements with the id \<open>kiwixJSTheme\<close> in tree order (\<open>getElementById\<close> finds
  the first), each with the value of its property \<open>href\<close> when that is a string (it
  is for a link; an element of another kind may have none); and its head element
  (\<open>doc.head\<close>, \<open>null\<close> when the document has none) as the number of these
  elements that stand before the end of the head, which is the place where
  \<open>doc.head.appendChild\<close> puts a new one.
\<close>

record article_document =
  docTitle :: jsstring
  themeLinks :: "jsstring option list"
  headEnd :: "nat option"

text \<open>The link that \<open>displayFileDownloadAlert\<close> puts into the alert.\<close>

record download_link =
  linkType :: jsstring
  linkDownload :: jsstring

text \<open>
  A promise is pending, fulfilled with a value, or rejected, either with a value passed to
  \<open>reject\<close> or with an exception thrown by its executor. Settling a promise that is
  no longer pending does nothing.
\<close>

datatype rejection = Reason jsval | Exception js_error

datatype promise = Pending | Fulfilled jsval | Rejected rejection

definition resolve :: "jsval \<Rightarrow> promise \<Rightarrow> promise" where
  "resolve v p = (case p of Pending \<Rightarrow> Fulfilled v | _ \<Rightarrow> p)"

definition reject :: "rejection \<Rightarrow> promise \<Rightarrow> promise" where
  "reject r p = (case p of Pending \<Rightarrow> Rejected r | _ \<Rightarrow> p)"

text \<open>
  The page: its elements by id (\<open>document.getElementById\<close>), the classes and the
  \<open>data-theme\<close> attribute of the root element, the classes of the first
  \<open>footer\<close> element (when there is one), the document of the article frame (when it
  can be reached), the colour scheme the system prefers, the address of the page up to
  its path, the browser's regular expression engine, the two set-up flags of the module,
  the promises made by \<open>systemAlert\<close> with the promises that its
  \<open>hide.bs.modal\<close> listeners settle, whether the modal is shown, and the link in the
  download alert.
\<close>

record page =
  elements :: "jsstring \<rightharpoonup> element"
  htmlClassList :: "jsstring list"
  htmlTheme :: "jsstring option"
  footer :: "jsstring list option"
  articleDocument :: "article_document option"
  darkPreference :: bool
  locationPath :: jsstring
  pageRegExp :: regexp_engine
  activeContentWarningSetup :: bool
  downloadAlertSetup :: bool
  promises :: "promise list"
  hideListeners :: "nat list"
  modalShown :: bool
  downloadLink :: "download_link option"

definition and_then :: "'s outcome \<Rightarrow> ('s \<Rightarrow> 's outcome) \<Rightarrow> 's outcome" where
  "and_then r f = (case r of Done s \<Rightarrow> f s | Thrown e s \<Rightarrow> Thrown e s)"

definition state_of :: "'s outcome \<Rightarrow> 's" where
  "state_of r = (case r of Done s \<Rightarrow> s | Thrown e s \<Rightarrow> s)"

text \<open>
  \<open>update_element i f\<close> is an access \<open>document.getElementById(i).x = ...\<close>: a
  \<open>TypeError\<close> when there is no such element (a property of \<open>null\<close> is
  accessed), the change \<open>f\<close> to the element otherwise.
\<close>

definition update_element :: "jsstring \<Rightarrow> (element \<Rightarrow> element) \<Rightarrow> page \<Rightarrow> page outcome" where
  "update_element i f pg =
     (case elements pg i of
        None \<Rightarrow> Thrown TypeError pg
      | Some e \<Rightarrow> Done (pg\<lparr>elements := (elements pg)(i \<mapsto> f e)\<rparr>))"

text \<open>The same for \<open>var e = document.getElementById(i); if (e) e.x = ...\<close>.\<close>

definition update_if_present :: "jsstring \<Rightarrow> (element \<Rightarrow> element) \<Rightarrow> page \<Rightarrow> page" where
  "update_if_present i f pg =
     (case elements pg i of
        None \<Rightarrow> pg
      | Some e \<Rightarrow> pg\<lparr>elements := (elements pg)(i \<mapsto> f e)\<rparr>)"

definition add_listener :: "jsstring \<Rightarrow> handler \<Rightarrow> element \<Rightarrow> element" where
  "add_listener event h e = e\<lparr>listeners := listeners e @ [(event, h)]\<rparr>"

text \<open>
  \<open>e.querySelector('button[data-hide]').addEventListener('click', h)\<close> for the element
  with the id \<open>i\<close>: a \<open>TypeError\<close> when the element or the button is missing.
\<close>

definition add_dismiss_listener :: "jsstring \<Rightarrow> handler \<Rightarrow> page \<Rightarrow> page outcome" where
  "add_dismiss_listener i h pg =
     (case elements pg i of
        None \<Rightarrow> Thrown TypeError pg
      | Some e \<Rightarrow>
          (case dataHideButton e of
             None \<Rightarrow> Thrown TypeError pg
           | Some hs \<Rightarrow> Done (pg\<lparr>elements := (elements pg)(i \<mapsto> e\<lparr>dataHideButton := Some (hs @ [h])\<rparr>)\<rparr>)))"

subsection \<open>Lists of classes\<close>

text \<open>
  \<open>classList.add\<close> and \<open>classList.remove\<close> throw a \<open>SyntaxError\<close> for the empty
  token and an \<open>InvalidCharacterError\<close> for a token with ASCII white space; a class
  list holds a token at most once.
\<close>

definition ascii_whitespace :: "jschar \<Rightarrow> bool" where
  "ascii_whitespace c = (c = 0x09 \<or> c = 0x0A \<or> c = 0x0C \<or> c = 0x0D \<or> c = 0x20)"

definition token_error :: "jsstring \<Rightarrow> js_error option" where
  "token_error t =
     (if t = [] then Some SyntaxError
      else if list_ex ascii_whitespace t then Some InvalidCharacterError
      else None)"

definition class_add :: "jsstring \<Rightarrow> jsstring list \<Rightarrow> jsstring list" where
  "class_add t cs = (if t \<in> set cs then cs else cs @ [t])"

definition class_remove :: "jsstring \<Rightarrow> jsstring list \<Rightarrow> jsstring list" where
  "class_remove t cs = removeAll t cs"

section \<open>uiUtil.js: applyAppTheme\<close>

text \<open>
  The regular expressions of the function:
  \<^item> \<open>/^auto/\<close> tests whether the text starts with \<open>auto\<close>;
  \<^item> \<open>s.replace(/_.*$/, '')\<close> cuts the text at the first underscore that no line
    terminator follows (the dot matches no line terminator): \<open>strip_tail underscore_tail\<close>;
  \<^item> \<open>s.replace(/^[^_]*/, '')\<close> removes the longest prefix without underscore;
  \<^item> \<open>s.replace(/_/, '')\<close> removes the first underscore;
  \<^item> \<open>s.replace(/\/[^/]*$/, '')\<close> cuts the text at its last slash:
    \<open>strip_tail slash_tail\<close>.
\<close>

fun underscore_tail :: "jsstring \<Rightarrow> bool" where
  "underscore_tail [] = False"
| "underscore_tail (c # cs) = (c = ch CHR ''_'' \<and> list_all (\<lambda>d. \<not> line_terminator d) cs)"

fun slash_tail :: "jsstring \<Rightarrow> bool" where
  "slash_tail [] = False"
| "slash_tail (c # cs) = (c = ch CHR ''/'' \<and> list_all (\<lambda>d. d \<noteq> ch CHR ''/'') cs)"

text \<open>
  \<open>e.classList.remove(t)\<close> and \<open>e.classList.add(t)\<close> on the root element, on the
  footer (\<open>document.querySelector('footer')\<close>, \<open>null\<close> when the page has none) and
  on an element found by its id.
\<close>

definition html_classes ::
  "(jsstring \<Rightarrow> jsstring list \<Rightarrow> jsstring list) \<Rightarrow> jsstring \<Rightarrow> page \<Rightarrow> page outcome" where
  "html_classes change t pg =
     (case token_error t of
        Some e \<Rightarrow> Thrown e pg
      | None \<Rightarrow> Done (pg\<lparr>htmlClassList := change t (htmlClassList pg)\<rparr>))"

definition footer_classes ::
  "(jsstring \<Rightarrow> jsstring list \<Rightarrow> jsstring list) \<Rightarrow> jsstring \<Rightarrow> page \<Rightarrow> page outcome" where
  "footer_classes change t pg =
     (case footer pg of
        None \<Rightarrow> Thrown TypeError pg
      | Some cs \<Rightarrow>
          (case token_error t of
             Some e \<Rightarrow> Thrown e pg
           | None \<Rightarrow> Done (pg\<lparr>footer := Some (change t cs)\<rparr>)))"

definition element_classes ::
  "jsstring \<Rightarrow> (jsstring \<Rightarrow> jsstring list \<Rightarrow> jsstring list) \<Rightarrow> jsstring \<Rightarrow> page \<Rightarrow> page outcome" where
  "element_classes i change t pg =
     (case elements pg i of
        None \<Rightarrow> Thrown TypeError pg
      | Some e \<Rightarrow>
          (case token_error t of
             Some err \<Rightarrow> Thrown err pg
           | None \<Rightarrow> Done (pg\<lparr>elements := (elements pg)(i \<mapsto> e\<lparr>classList := change t (classList e)\<rparr>)\<rparr>)))"

text \<open>
  \<open>kiwixJSSheet.href.search('kiwixJS' + contentTheme + '.css')\<close> reads its argument as
  a regular expression; \<open>sheet_found\<close> tells whether it finds a match. For an element
  whose \<open>href\<close> is no string the call is a \<open>TypeError\<close>.
\<close>

definition sheet_found :: "page \<Rightarrow> jsstring \<Rightarrow> jsstring \<Rightarrow> js_error + bool" where
  "sheet_found pg pattern href =
     (if simple_pattern pattern then Inr (pattern_search pattern href \<noteq> None)
      else
        (case pageRegExp pg pattern href of
           PatternSyntaxError \<Rightarrow> Inl SyntaxError
         | NoMatch \<Rightarrow> Inr False
         | Match groups \<Rightarrow> Inr True))"

text \<open>
  \<open>kiwixJSSheet.parentNode.removeChild(kiwixJSSheet)\<close> takes the first of the elements
  with the id \<open>kiwixJSTheme\<close> out of the frame document (it is in the document, so it
  has a parent). \<open>doc.head.appendChild(link)\<close> puts the new link at the end of the head:
  a \<open>TypeError\<close> when the document has no head. The property \<open>href\<close> of the new
  link is taken to be the address given to \<open>setAttribute\<close>, which is absolute.
\<close>

definition remove_theme_link :: "page \<Rightarrow> page" where
  "remove_theme_link pg =
     (case articleDocument pg of
        None \<Rightarrow> pg
      | Some d \<Rightarrow>
          pg\<lparr>articleDocument :=
               Some (d\<lparr>themeLinks := tl (themeLinks d),
                        headEnd := map_option (\<lambda>n. n - 1) (headEnd d)\<rparr>)\<rparr>)"

definition append_theme_link :: "jsstring \<Rightarrow> page \<Rightarrow> page outcome" where
  "append_theme_link href pg =
     (case articleDocument pg of
        None \<Rightarrow> Done pg
      | Some d \<Rightarrow>
          (case headEnd d of
             None \<Rightarrow> Thrown TypeError pg
           | Some n \<Rightarrow>
               Done (pg\<lparr>articleDocument :=
                       Some (d\<lparr>themeLinks := take n (themeLinks d) @ [Some href]
                                                @ drop n (themeLinks d),
                                headEnd := Some (Suc n)\<rparr>)\<rparr>)))"

text \<open>
  \<^verbatim>\<open>
  function showReturnLink() {
      var viewArticle = document.getElementById('viewArticle');
      viewArticle.style.display = 'block';
      viewArticle.addEventListener('click', function(e) { ... });
  }
  \<close>
\<close>

definition showReturnLink :: "page \<Rightarrow> page outcome" where
  "showReturnLink pg =
     update_element (js ''viewArticle'')
       (\<lambda>e. add_listener (js ''click'') ReturnToArticle (e\<lparr>display := js ''block''\<rparr>)) pg"

text \<open>
  \<^verbatim>\<open>
  function applyAppTheme(theme) {
      var darkPreference = window.matchMedia('(prefers-color-scheme:dark)');
      var appTheme = /^auto/.test(theme) ? darkPreference.matches ? 'dark' : 'light'
                                         : theme.replace(/_.*$/, '');
      var contentTheme = theme.replace(/^[^_]*/, '');
      var htmlEl = document.querySelector('html');
      var footer = document.querySelector('footer');
      var oldTheme = htmlEl.dataset.theme || '';
      var iframe = document.getElementById('articleContent');
      var doc = iframe.contentDocument;
      var kiwixJSSheet = doc ? doc.getElementById('kiwixJSTheme') || null : null;
      var oldAppTheme = oldTheme.replace(/_.*$/, '');
      var oldContentTheme = oldTheme.replace(/^[^_]*/, '');
      if (oldAppTheme) htmlEl.classList.remove(oldAppTheme);
      footer.classList.remove(oldContentTheme || '_light');
      if (appTheme) htmlEl.classList.add(appTheme);
      footer.classList.add(contentTheme || '_light');
      htmlEl.dataset.theme = appTheme + contentTheme;
      var oldHelp = document.getElementById(oldContentTheme.replace(/_/, '') + '-help');
      if (oldHelp) oldHelp.style.display = 'none';
      var help = document.getElementById(contentTheme.replace(/_/, '') + '-help');
      if (help) help.style.display = 'block';
      if (/^auto/.test(theme) && appTheme === 'light') contentTheme = null;
      var oldDescription = document.getElementById('kiwix-auto-description');
      if (oldDescription) oldDescription.style.display = 'none';
      var description = document.getElementById('kiwix-' + theme.replace(/_.*$/, '') + '-description');
      if (description) description.style.display = 'block';
      if (oldContentTheme && oldContentTheme !== contentTheme) {
          iframe.classList.remove(oldContentTheme);
          if (kiwixJSSheet) {
              kiwixJSSheet.disabled = true;
              kiwixJSSheet.parentNode.removeChild(kiwixJSSheet);
          }
      }
      if (contentTheme && (!kiwixJSSheet || !~kiwixJSSheet.href.search('kiwixJS' + contentTheme + '.css'))) {
          iframe.classList.add(contentTheme);
          var prefix = (window.location.protocol + '//' + window.location.host
                        + window.location.pathname).replace(/\/[^/]*$/, '');
          if (doc) {
              var link = doc.createElement('link');
              link.setAttribute('id', 'kiwixJSTheme');
              link.setAttribute('rel', 'stylesheet');
              link.setAttribute('type', 'text/css');
              link.setAttribute('href', prefix + '/css/kiwixJS' + contentTheme + '.css');
              doc.head.appendChild(link);
          }
      }
      if (document.getElementById('liConfigureNav').classList.contains('active') && doc &&
          doc.title !== "Placeholder for injecting an article into the iframe") {
          showReturnLink();
      }
  }
  \<close>
  The variable \<open>contentTheme\<close> holds a string up to the line that may set it to
  \<open>null\<close>; from there on it is \<open>newContentTheme\<close>, an optional string.
\<close>

definition applyAppTheme :: "jsstring \<Rightarrow> page \<Rightarrow> page outcome" where
  "applyAppTheme theme pg =
     (let appTheme = (if prefix (js ''auto'') theme
                      then (if darkPreference pg then js ''dark'' else js ''light'')
                      else strip_tail underscore_tail theme);
          contentTheme = dropWhile (\<lambda>c. c \<noteq> ch CHR ''_'') theme;
          oldTheme = (case htmlTheme pg of None \<Rightarrow> [] | Some t \<Rightarrow> t)
      in
      case elements pg (js ''articleContent'') of
        None \<Rightarrow> Thrown TypeError pg
      | Some iframe \<Rightarrow>
     (let doc = articleDocument pg;
          kiwixJSSheet = (case doc of
                            None \<Rightarrow> None
                          | Some d \<Rightarrow> (case themeLinks d of [] \<Rightarrow> None | l # ls \<Rightarrow> Some l));
          oldAppTheme = strip_tail underscore_tail oldTheme;
          oldContentTheme = dropWhile (\<lambda>c. c \<noteq> ch CHR ''_'') oldTheme
      in
      and_then (if oldAppTheme \<noteq> [] then html_classes class_remove oldAppTheme pg else Done pg) (\<lambda>pg.
      and_then (footer_classes class_remove
                  (if oldContentTheme \<noteq> [] then oldContentTheme else js ''_light'') pg) (\<lambda>pg.
      and_then (if appTheme \<noteq> [] then html_classes class_add appTheme pg else Done pg) (\<lambda>pg.
      and_then (footer_classes class_add
                  (if contentTheme \<noteq> [] then contentTheme else js ''_light'') pg) (\<lambda>pg.
     (let pg = pg\<lparr>htmlTheme := Some (appTheme @ contentTheme)\<rparr>;
          pg = update_if_present (remove1 (ch CHR ''_'') oldContentTheme @ js ''-help'')
                 (\<lambda>e. e\<lparr>display := js ''none''\<rparr>) pg;
          pg = update_if_present (remove1 (ch CHR ''_'') contentTheme @ js ''-help'')
                 (\<lambda>e. e\<lparr>display := js ''block''\<rparr>) pg;
          newContentTheme = (if prefix (js ''auto'') theme \<and> appTheme = js ''light''
                             then None else Some contentTheme);
          pg = update_if_present (js ''kiwix-auto-description'')
                 (\<lambda>e. e\<lparr>display := js ''none''\<rparr>) pg;
          pg = update_if_present
                 (js ''kiwix-'' @ strip_tail underscore_tail theme @ js ''-description'')
                 (\<lambda>e. e\<lparr>display := js ''block''\<rparr>) pg
      in
      and_then
        (if oldContentTheme \<noteq> [] \<and> Some oldContentTheme \<noteq> newContentTheme then
           and_then (element_classes (js ''articleContent'') class_remove oldContentTheme pg) (\<lambda>pg.
             Done (if kiwixJSSheet \<noteq> None then remove_theme_link pg else pg))
         else Done pg) (\<lambda>pg.
      and_then
        (case newContentTheme of
           None \<Rightarrow> Done pg
         | Some ct \<Rightarrow>
             if ct = [] then Done pg
             else
               (case (case kiwixJSSheet of
                        None \<Rightarrow> Inr False
                      | Some None \<Rightarrow> Inl TypeError
                      | Some (Some href) \<Rightarrow>
                          sheet_found pg (js ''kiwixJS'' @ ct @ js ''.css'') href) of
                  Inl e \<Rightarrow> Thrown e pg
                | Inr True \<Rightarrow> Done pg
                | Inr False \<Rightarrow>
                    and_then (element_classes (js ''articleContent'') class_add ct pg) (\<lambda>pg.
                      append_theme_link
                        (strip_tail slash_tail (locationPath pg) @ js ''/css/kiwixJS'' @ ct
                           @ js ''.css'') pg))) (\<lambda>pg.
        (case elements pg (js ''liConfigureNav'') of
           None \<Rightarrow> Thrown TypeError pg
         | Some nav \<Rightarrow>
             if js ''active'' \<in> set (classList nav)
                \<and> (case doc of
                      None \<Rightarrow> False
                    | Some d \<Rightarrow>
                        docTitle d \<noteq> js ''Placeholder for injecting an article into the iframe'')
             then showReturnLink pg
             else Done pg))))))))))"

section \<open>uiUtil.js: systemAlert\<close>

text \<open>
  \<^verbatim>\<open>
  function systemAlert(message, label, isConfirm, declineConfirmLabel, approveConfirmLabel,
                       closeMessageLabel) {
      declineConfirmLabel = declineConfirmLabel || "Cancel";
      approveConfirmLabel = approveConfirmLabel || "Confirm";
      closeMessageLabel = closeMessageLabel || "Okay";
      label = label || (isConfirm ? "Confirmation" : "Message");
      return new Promise(function (resolve, reject) {
          if (!message) reject("Missing body message");
          document.getElementById("approveConfirm").textContent = approveConfirmLabel;
          document.getElementById("declineConfirm").textContent = declineConfirmLabel;
          document.getElementById("closeMessage").textContent = closeMessageLabel;
          document.getElementById("modalLabel").textContent = label;
          document.getElementById("modalText").innerHTML = message;
          document.getElementById("approveConfirm").style.display = isConfirm ? "inline" : "none";
          document.getElementById("declineConfirm").style.display = isConfirm ? "inline" : "none";
          document.getElementById("closeMessage").style.display = isConfirm ? "none" : "inline";
          $("#alertModal").modal("show");
          $("#alertModal").on("hide.bs.modal", function () {
              const closeSource = document.activeElement;
              if (closeSource.id === "approveConfirm") {
                  resolve(true);
              } else {
                  resolve(false);
              }
          });
          document.getElementById('alertModal').addEventListener('keyup', function (e) {
              if (/Enter/.test(e.key)) { ... }
          });
      });
  }
  \<close>
  The promise is the next entry of \<open>promises\<close>. The executor runs at once; an
  exception it throws rejects the promise (when that is still pending) and does not leave
  \<open>systemAlert\<close>. Assigning to \<open>textContent\<close> or \<open>innerHTML\<close> turns the
  value into a string, \<open>null\<close> into the empty string. The jQuery calls do nothing
  when the page has no element \<open>alertModal\<close>.
\<close>

definition settle :: "nat \<Rightarrow> (promise \<Rightarrow> promise) \<Rightarrow> page \<Rightarrow> page" where
  "settle i f pg =
     (if i < length (promises pg) then pg\<lparr>promises := (promises pg)[i := f (promises pg ! i)]\<rparr>
      else pg)"

definition text_of :: "jsval \<Rightarrow> jsstring" where
  "text_of v = (if v = JNull \<or> v = JUndefined then [] else to_string v)"

definition inner_html :: "jsval \<Rightarrow> jsstring" where
  "inner_html v = (if v = JNull then [] else to_string v)"

definition set_text :: "jsstring \<Rightarrow> jsval \<Rightarrow> page \<Rightarrow> page outcome" where
  "set_text i v pg = update_element i (\<lambda>e. e\<lparr>markup := TextContent (text_of v)\<rparr>) pg"

definition set_display :: "jsstring \<Rightarrow> jsstring \<Rightarrow> page \<Rightarrow> page outcome" where
  "set_display i d pg = update_element i (\<lambda>e. e\<lparr>display := d\<rparr>) pg"

definition alert_executor ::
  "jsval \<Rightarrow> jsval \<Rightarrow> jsval \<Rightarrow> jsval \<Rightarrow> jsval \<Rightarrow> jsval \<Rightarrow> nat \<Rightarrow> page \<Rightarrow> page outcome" where
  "alert_executor message label isConfirm declineConfirmLabel approveConfirmLabel
       closeMessageLabel i pg =
     (let pg = (if \<not> truthy message
                then settle i (reject (Reason (JStr (js ''Missing body message'')))) pg else pg)
      in
      and_then (set_text (js ''approveConfirm'') approveConfirmLabel pg) (\<lambda>pg.
      and_then (set_text (js ''declineConfirm'') declineConfirmLabel pg) (\<lambda>pg.
      and_then (set_text (js ''closeMessage'') closeMessageLabel pg) (\<lambda>pg.
      and_then (set_text (js ''modalLabel'') label pg) (\<lambda>pg.
      and_then (update_element (js ''modalText'')
                  (\<lambda>e. e\<lparr>markup := InnerHTML (inner_html message)\<rparr>) pg) (\<lambda>pg.
      and_then (set_display (js ''approveConfirm'')
                  (if truthy isConfirm then js ''inline'' else js ''none'') pg) (\<lambda>pg.
      and_then (set_display (js ''declineConfirm'')
                  (if truthy isConfirm then js ''inline'' else js ''none'') pg) (\<lambda>pg.
      and_then (set_display (js ''closeMessage'')
                  (if truthy isConfirm then js ''none'' else js ''inline'') pg) (\<lambda>pg.
     (let pg = (if elements pg (js ''alertModal'') \<noteq> None
                then pg\<lparr>modalShown := True, hideListeners := hideListeners pg @ [i]\<rparr>
                else pg)
      in update_element (js ''alertModal'')
           (add_listener (js ''keyup'') (PressButtonOnEnter (truthy isConfirm))) pg))))))))))"

definition systemAlert ::
  "jsval \<Rightarrow> jsval \<Rightarrow> jsval \<Rightarrow> jsval \<Rightarrow> jsval \<Rightarrow> jsval \<Rightarrow> page \<Rightarrow> nat \<times> page" where
  "systemAlert message label isConfirm declineConfirmLabel approveConfirmLabel
       closeMessageLabel pg =
     (let declineConfirmLabel = js_or declineConfirmLabel (JStr (js ''Cancel''));
          approveConfirmLabel = js_or approveConfirmLabel (JStr (js ''Confirm''));
          closeMessageLabel = js_or closeMessageLabel (JStr (js ''Okay''));
          label = js_or label (if truthy isConfirm then JStr (js ''Confirmation'')
                               else JStr (js ''Message''));
          i = length (promises pg);
          pg = pg\<lparr>promises := promises pg @ [Pending]\<rparr>
      in (i,
          case alert_executor message label isConfirm declineConfirmLabel approveConfirmLabel
                 closeMessageLabel i pg of
            Done pg' \<Rightarrow> pg'
          | Thrown e pg' \<Rightarrow> settle i (reject (Exception e)) pg'))"

text \<open>
  The event \<open>hide.bs.modal\<close>: the modal is being closed while the element with the id
  \<open>closeSource\<close> has the focus (\<open>document.activeElement\<close>). Every listener that a
  call of \<open>systemAlert\<close> has registered runs, each for the promise of its call.
\<close>

definition modal_hidden :: "jsstring \<Rightarrow> page \<Rightarrow> page" where
  "modal_hidden closeSource pg =
     (fold (\<lambda>i. settle i (resolve (JBool (closeSource = js ''approveConfirm''))))
        (hideListeners pg) pg)\<lparr>modalShown := False\<rparr>"

text \<open>
  What happens at the modal, one event after the other: it is closed with the focus on
  some element, or \<open>systemAlert\<close> is called (once more). \<open>first_hide\<close> is the
  element that had the focus when the modal was closed for the first time.
\<close>

datatype modal_event =
    Hide jsstring
  | Alert jsval jsval jsval jsval jsval jsval

fun modal_event_step :: "modal_event \<Rightarrow> page \<Rightarrow> page" where
  "modal_event_step (Hide closeSource) pg = modal_hidden closeSource pg"
| "modal_event_step (Alert message label isConfirm declineConfirmLabel approveConfirmLabel
       closeMessageLabel) pg =
     snd (systemAlert message label isConfirm declineConfirmLabel approveConfirmLabel
            closeMessageLabel pg)"

definition modal_run :: "modal_event list \<Rightarrow> page \<Rightarrow> page" where
  "modal_run evs pg = fold modal_event_step evs pg"

fun first_hide :: "modal_event list \<Rightarrow> jsstring option" where
  "first_hide [] = None"
| "first_hide (Hide closeSource # evs) = Some closeSource"
| "first_hide (ev # evs) = first_hide evs"

section \<open>uiUtil.js: displayActiveContentWarning and displayFileDownloadAlert\<close>

text \<open>
  \<^verbatim>\<open>
  var activeContentWarningSetup = false;
  function displayActiveContentWarning() {
      var alertActiveContent = document.getElementById('activeContent');
      alertActiveContent.style.display = '';
      if (!activeContentWarningSetup) {
          activeContentWarningSetup = true;
          alertActiveContent.querySelector('button[data-hide]').addEventListener('click', function() {
              alertActiveContent.style.display = 'none';
          });
          ['swModeLink', 'stop'].forEach(function(id) {
              document.getElementById(id).addEventListener('click', function () { ... });
          });
      }
  }
  \<close>
\<close>

definition displayActiveContentWarning :: "page \<Rightarrow> page outcome" where
  "displayActiveContentWarning pg =
     and_then (set_display (js ''activeContent'') [] pg) (\<lambda>pg.
       if \<not> activeContentWarningSetup pg then
         (let pg = pg\<lparr>activeContentWarningSetup := True\<rparr>
          in
          and_then (add_dismiss_listener (js ''activeContent'')
                      (HideElement (js ''activeContent'')) pg) (\<lambda>pg.
          and_then (update_element (js ''swModeLink'')
                      (add_listener (js ''click'') (HighlightOption (js ''swModeLink''))) pg) (\<lambda>pg.
          update_element (js ''stop'')
            (add_listener (js ''click'') (HighlightOption (js ''stop''))) pg)))
       else Done pg)"

text \<open>
  \<^verbatim>\<open>
  var downloadAlertSetup = false;
  function displayFileDownloadAlert(title, download, contentType, content) {
      var downloadAlert = document.getElementById('downloadAlert');
      downloadAlert.style.display = 'block';
      if (!downloadAlertSetup) downloadAlert.querySelector('button[data-hide]').addEventListener(
          'click', function() { downloadAlert.style.display = 'none'; });
      downloadAlertSetup = true;
      if (!contentType) contentType = 'application/octet-stream';
      var a = document.createElement('a');
      var blob = new Blob([content], { 'type': contentType });
      var filename = download === true ? title.replace(/^.*\/([^\/]+)$/, '$1') : download;
      filename = filename.replace(/[\/\\:*?"<>|]/g, '_');
      a.href = window.URL.createObjectURL(blob);
      a.target = '_blank';
      a.type = contentType;
      a.download = filename;
      a.classList.add('alert-link');
      a.innerHTML = filename;
      var alertMessage = document.getElementById('alertMessage');
      alertMessage.innerHTML = '<strong>Download</strong> If the download does not start, please tap the following link: ';
      alertMessage.appendChild(a);
      try { a.click(); }
      catch (err) { ... }
      document.getElementById('searchingArticles').style.display = 'none';
  }
  \<close>
  \<open>title.replace(/^.*\/([^\/]+)$/, '$1')\<close> is the text after the last slash of the
  title when that text is not empty and no line terminator stands before the slash (the
  dot matches none), and the title otherwise. The second \<open>replace\<close> writes an
  underscore for every character that a file name must not have; \<open>download\<close> is
  \<open>true\<close> or the file name, and \<open>replace\<close> is no function of any other value.
  The content of the file, the object URL made for it and the click on the link (which
  starts the download) are not part of the page.
\<close>

definition after_last_slash :: "jsstring \<Rightarrow> jsstring" where
  "after_last_slash title =
     (let name = rev (takeWhile (\<lambda>c. c \<noteq> ch CHR ''/'') (rev title));
          path = rev (dropWhile (\<lambda>c. c \<noteq> ch CHR ''/'') (rev title))
      in if path \<noteq> [] \<and> name \<noteq> [] \<and> list_all (\<lambda>c. \<not> line_terminator c) (butlast path)
         then name else title)"

definition safe_filename :: "jsstring \<Rightarrow> jsstring" where
  "safe_filename s =
     map (\<lambda>c. if c \<in> set (js ''/:*?<>|'') \<or> c = 0x5C \<or> c = 0x22 then ch CHR ''_'' else c) s"

definition displayFileDownloadAlert :: "jsstring \<Rightarrow> jsval \<Rightarrow> jsval \<Rightarrow> page \<Rightarrow> page outcome" where
  "displayFileDownloadAlert title download contentType pg =
     and_then (set_display (js ''downloadAlert'') (js ''block'') pg) (\<lambda>pg.
     and_then (if \<not> downloadAlertSetup pg
               then add_dismiss_listener (js ''downloadAlert'') (HideElement (js ''downloadAlert'')) pg
               else Done pg) (\<lambda>pg.
    (let pg = pg\<lparr>downloadAlertSetup := True\<rparr>;
         contentType = (if \<not> truthy contentType then JStr (js ''application/octet-stream'')
                        else contentType);
         filename = (if download = JBool True then JStr (after_last_slash title) else download)
     in case filename of
          JStr name \<Rightarrow>
            and_then (update_element (js ''alertMessage'')
                        (\<lambda>e. e\<lparr>markup := InnerHTML (js ''<strong>Download</strong> If the download does not start, please tap the following link: '')\<rparr>)
                        pg) (\<lambda>pg.
            set_display (js ''searchingArticles'') (js ''none'')
              (pg\<lparr>downloadLink := Some \<lparr>linkType = to_string contentType,
                                         linkDownload = safe_filename name\<rparr>\<rparr>))
        | _ \<Rightarrow> Thrown TypeError pg)))"

text \<open>A click on the dismiss button of the alert \<open>i\<close> runs its click listeners.\<close>

fun run_handler :: "handler \<Rightarrow> page \<Rightarrow> page" where
  "run_handler (HideElement i) pg = update_if_present i (\<lambda>e. e\<lparr>display := js ''none''\<rparr>) pg"
| "run_handler h pg = pg"

definition click_dismiss :: "jsstring \<Rightarrow> page \<Rightarrow> page" where
  "click_dismiss i pg =
     (case elements pg i of
        None \<Rightarrow> pg
      | Some e \<Rightarrow> (case dataHideButton e of None \<Rightarrow> pg | Some hs \<Rightarrow> fold run_handler hs pg))"

text \<open>
  What happens to the two alerts, one event after the other: a call of one of the two
  functions (the state goes on from where the call ended, also when it threw) or a click
  on a dismiss button.
\<close>

datatype alert_event =
    ActiveContentWarning
  | FileDownloadAlert jsstring jsval jsval
  | DismissActiveContent
  | DismissDownloadAlert

fun alert_step :: "alert_event \<Rightarrow> page \<Rightarrow> page" where
  "alert_step ActiveContentWarning pg = state_of (displayActiveContentWarning pg)"
| "alert_step (FileDownloadAlert title download contentType) pg =
     state_of (displayFileDownloadAlert title download contentType pg)"
| "alert_step DismissActiveContent pg = click_dismiss (js ''activeContent'') pg"
| "alert_step DismissDownloadAlert pg = click_dismiss (js ''downloadAlert'') pg"

definition alert_run :: "alert_event list \<Rightarrow> page \<Rightarrow> page" where
  "alert_run evs pg = fold alert_step evs pg"

section \<open>uiUtil.js: feedNodeWithDataURI\<close>

text \<open>
  \<^verbatim>\<open>
  function feedNodeWithDataURI(node, nodeAttribute, content, mimeType, callback) {
      if (webpMachine && /image\/webp/i.test(mimeType)) {
          if (/^data:/i.test(content)) {
              content = webpHero.convertDataURIToBinary(content);
          }
          var canvas = document.createElement('canvas');
          webpMachine.decodeToCanvas(canvas, content).then(function () {
              if (callback) callback();
              if (params.useCanvasElementsForWebpTranscoding) {
                  webpMachine.constructor.replaceImageWithCanvas(node, canvas);
              } else {
                  node.setAttribute(nodeAttribute, canvas.toDataURL());
              }
          }).catch(function (err) {
              console.error('There was an error decoding image in WebpMachine', err);
              if (callback) callback();
          });
      } else {
          if (callback) callback();
          var myReader = new FileReader();
          myReader.onloadend = function () {
              var url = myReader.result;
              node.setAttribute(nodeAttribute, url);
          };
          myReader.readAsDataURL(new Blob([content], { type: mimeType }));
      }
  }
  \<close>
  The content is an array of bytes or a string (a data URI). What the function gets from
  outside is in \<open>image_environment\<close>: the WebP decoder (\<open>webpMachine\<close> is
  \<open>false\<close> when the browser decodes WebP itself), whose promise is either fulfilled,
  the canvas then holding the image (\<open>Decoded u\<close>, with \<open>u\<close> what
  \<open>canvas.toDataURL()\<close> returns), or rejected with an error (\<open>DecodeFailed err\<close>);
  the conversion of a data URI to bytes; the data URL that the \<open>FileReader\<close> makes of
  a content and a MIME type; and the parameter \<open>useCanvasElementsForWebpTranscoding\<close>.
  The callback, when there is one, returns or throws.

  \<open>feed_state\<close> is what the function changes, once the promise and the reader have
  finished: the attributes of the node, the canvas that has replaced the node (if any),
  the messages of \<open>console.error\<close> with the error logged, how often the callback and
  the decoder have been called, and whether a promise was left rejected with no handler.
  A regular expression test turns its argument into a string; an array of bytes
  becomes a list of numbers, which does not start with \<open>data:\<close>.
\<close>

datatype image_content = Bytes "8 word list" | DataText jsstring

datatype decode_outcome = Decoded jsstring | DecodeFailed jsstring

datatype callback = Returns | Throws js_error

record image_environment =
  webpMachine :: "(image_content \<Rightarrow> decode_outcome) option"
  convertDataURIToBinary :: "jsstring \<Rightarrow> js_error + 8 word list"
  readAsDataURL :: "image_content \<Rightarrow> jsstring \<Rightarrow> jsstring"
  useCanvasElements :: bool

record feed_state =
  nodeAttributes :: "jsstring \<rightharpoonup> jsstring"
  nodeCanvas :: "jsstring option"
  consoleErrors :: "(jsstring \<times> jsstring) list"
  callbackCalls :: nat
  decodeCalls :: nat
  unhandledRejection :: bool

text \<open>\<open>if (callback) callback();\<close>\<close>

definition call_back :: "callback option \<Rightarrow> feed_state \<Rightarrow> feed_state outcome" where
  "call_back callback st =
     (case callback of
        None \<Rightarrow> Done st
      | Some Returns \<Rightarrow> Done (st\<lparr>callbackCalls := Suc (callbackCalls st)\<rparr>)
      | Some (Throws e) \<Rightarrow> Thrown e (st\<lparr>callbackCalls := Suc (callbackCalls st)\<rparr>))"

text \<open>
  \<open>if (/^data:/i.test(content)) content = webpHero.convertDataURIToBinary(content);\<close>
\<close>

definition binary_content :: "image_environment \<Rightarrow> image_content \<Rightarrow> js_error + image_content" where
  "binary_content env content =
     (case content of
        Bytes bs \<Rightarrow> Inr content
      | DataText s \<Rightarrow>
          if starts_with_ci (js ''data:'') s then
            (case convertDataURIToBinary env s of
               Inl e \<Rightarrow> Inl e
             | Inr bs \<Rightarrow> Inr (Bytes bs))
          else Inr content)"

text \<open>The two functions given to \<open>then\<close> and to \<open>catch\<close>.\<close>

definition on_decoded ::
  "image_environment \<Rightarrow> jsstring \<Rightarrow> callback option \<Rightarrow> jsstring \<Rightarrow> feed_state \<Rightarrow> feed_state outcome" where
  "on_decoded env nodeAttribute callback url st =
     and_then (call_back callback st) (\<lambda>st.
       if useCanvasElements env then Done (st\<lparr>nodeCanvas := Some url\<rparr>)
       else Done (st\<lparr>nodeAttributes := (nodeAttributes st)(nodeAttribute \<mapsto> url)\<rparr>))"

definition on_decode_error :: "callback option \<Rightarrow> jsstring \<Rightarrow> feed_state \<Rightarrow> feed_state outcome" where
  "on_decode_error callback err st =
     call_back callback
       (st\<lparr>consoleErrors := consoleErrors st
              @ [(js ''There was an error decoding image in WebpMachine'', err)]\<rparr>)"

text \<open>
  \<open>p.then(f).catch(g)\<close>: \<open>g\<close> handles the rejection of \<open>p\<close> and also an
  exception thrown by \<open>f\<close>; an exception thrown by \<open>g\<close> is handled by nobody.
  The error that \<open>g\<close> logs for an exception of \<open>f\<close> is printed as the name of the
  exception.
\<close>

definition error_name :: "js_error \<Rightarrow> jsstring" where
  "error_name e =
     (case e of
        TypeError \<Rightarrow> js ''TypeError''
      | URIError \<Rightarrow> js ''URIError''
      | SyntaxError \<Rightarrow> js ''SyntaxError''
      | InvalidCharacterError \<Rightarrow> js ''InvalidCharacterError'')"

definition unhandled :: "feed_state outcome \<Rightarrow> feed_state" where
  "unhandled r = (case r of Done st \<Rightarrow> st | Thrown e st \<Rightarrow> st\<lparr>unhandledRejection := True\<rparr>)"

definition feedNodeWithDataURI ::
  "image_environment \<Rightarrow> jsstring \<Rightarrow> image_content \<Rightarrow> jsstring \<Rightarrow> callback option
     \<Rightarrow> feed_state \<Rightarrow> feed_state outcome" where
  "feedNodeWithDataURI env nodeAttribute content mimeType callback st =
     (case webpMachine env of
        Some decodeToCanvas \<Rightarrow>
          if contains_ci (js ''image/webp'') mimeType then
            (case binary_content env content of
               Inl e \<Rightarrow> Thrown e st
             | Inr content \<Rightarrow>
                 (let st = st\<lparr>decodeCalls := Suc (decodeCalls st)\<rparr>
                  in case decodeToCanvas content of
                       Decoded url \<Rightarrow>
                         (case on_decoded env nodeAttribute callback url st of
                            Done st \<Rightarrow> Done st
                          | Thrown e st \<Rightarrow>
                              Done (unhandled (on_decode_error callback (error_name e) st)))
                     | DecodeFailed err \<Rightarrow> Done (unhandled (on_decode_error callback err st))))
          else
            and_then (call_back callback st) (\<lambda>st.
              Done (st\<lparr>nodeAttributes :=
                (nodeAttributes st)(nodeAttribute \<mapsto> readAsDataURL env content mimeType)\<rparr>))
      | None \<Rightarrow>
          and_then (call_back callback st) (\<lambda>st.
            Done (st\<lparr>nodeAttributes :=
              (nodeAttributes st)(nodeAttribute \<mapsto> readAsDataURL env content mimeType)\<rparr>)))"

section \<open>Example states\<close>

text \<open>
  Concrete states on which the theorems below are instantiated: an image decoder that is
  busy and rejects every image, and a node without attributes.
\<close>

definition busy_decoder :: image_environment where
  "busy_decoder =
     \<lparr>webpMachine = Some (\<lambda>c. DecodeFailed (js ''busy'')),
      convertDataURIToBinary = (\<lambda>s. Inr []),
      readAsDataURL = (\<lambda>c m. js ''data:''),
      useCanvasElements = False\<rparr>"

definition fresh_node :: feed_state where
  "fresh_node =
     \<lparr>nodeAttributes = Map.empty, nodeCanvas = None, consoleErrors = [], callbackCalls = 0,
      decodeCalls = 0, unhandledRejection = False\<rparr>"

text \<open>
  A browser whose local storage holds the setting \<open>appCache\<close> with the value
  \<open>false\<close>, opened with a query string that asks for the jQuery mode and turns
  \<open>appCache\<close> off once more.
\<close>

definition no_engine :: regexp_engine where
  "no_engine pattern subject = NoMatch"

definition jquery_launch :: browser where
  "jquery_launch =
     \<lparr>localStorage = [js ''kiwixjs-appCache'' \<mapsto> js ''false''],
      cookieJar = [],
      regExpEngine = no_engine,
      locationSearch = js ''?contentInjectionMode=jquery&appCache=false'',
      locationHref = js ''https://browser-extension.kiwix.org/current/www/index.html?contentInjectionMode=jquery&appCache=false'',
      serviceWorkerInNavigator = True,
      kiwixCommFrames = []\<rparr>"

text \<open>
  Two more launches of the same browser: a query string that overrides the parameter
  \<open>keyPrefix\<close>, and one with a percent sign that starts no escape sequence.
\<close>

definition prefix_launch :: browser where
  "prefix_launch = jquery_launch\<lparr>locationSearch := js ''?keyPrefix=kiwixjs-ti&tle=x''\<rparr>"

definition malformed_launch :: browser where
  "malformed_launch = jquery_launch\<lparr>locationSearch := js ''?appTheme=%&appCache=true''\<rparr>"

text \<open>
  A page of the reader with the elements that the functions of \<open>uiUtil.js\<close> look up:
  the article frame, the navigation entry of the configuration section (which is open),
  the return link, the help text of the inverted theme, the two alerts with their
  hyperlinks and dismiss buttons, and the modal. The page is in the light theme and the
  frame shows an article, whose document has a head and no theme link yet.
\<close>

definition plain_element :: element where
  "plain_element =
     \<lparr>classList = [], display = [], markup = TextContent [], listeners = [],
      dataHideButton = Some []\<rparr>"

definition reader_page :: page where
  "reader_page =
     \<lparr>elements =
        [js ''articleContent'' \<mapsto> plain_element,
         js ''liConfigureNav'' \<mapsto> plain_element\<lparr>classList := [js ''active'']\<rparr>,
         js ''viewArticle'' \<mapsto> plain_element,
         js ''invert-help'' \<mapsto> plain_element,
         js ''activeContent'' \<mapsto> plain_element,
         js ''swModeLink'' \<mapsto> plain_element,
         js ''stop'' \<mapsto> plain_element,
         js ''downloadAlert'' \<mapsto> plain_element,
         js ''alertMessage'' \<mapsto> plain_element,
         js ''searchingArticles'' \<mapsto> plain_element,
         js ''approveConfirm'' \<mapsto> plain_element,
         js ''declineConfirm'' \<mapsto> plain_element,
         js ''closeMessage'' \<mapsto> plain_element,
         js ''modalLabel'' \<mapsto> plain_element,
         js ''modalText'' \<mapsto> plain_element,
         js ''alertModal'' \<mapsto> plain_element],
      htmlClassList = [js ''light''],
      htmlTheme = Some (js ''light''),
      footer = Some [js ''_light''],
      articleDocument = Some \<lparr>docTitle = js ''Ray Charles'', themeLinks = [], headEnd = Some 0\<rparr>,
      darkPreference = False,
      locationPath = js ''https://browser-extension.kiwix.org/current/www/index.html'',
      pageRegExp = no_engine,
      activeContentWarningSetup = False,
      downloadAlertSetup = False,
      promises = [],
      hideListeners = [],
      modalShown = False,
      downloadLink = None\<rparr>"

text \<open>The same page without the element \<open>modalText\<close> of the modal.\<close>

definition page_without_modal_text :: page where
  "page_without_modal_text =
     reader_page\<lparr>elements := (elements reader_page)(js ''modalText'' := None)\<rparr>"

text \<open>The reader page again, with a frame document that has no head element.\<close>

definition page_without_head :: page where
  "page_without_head =
     reader_page\<lparr>articleDocument :=
       Some \<lparr>docTitle = js ''Ray Charles'', themeLinks = [], headEnd = None\<rparr>\<rparr>"

section \<open>Notions used in the proofs\<close>

text \<open>
  A character that can stand in the name or the value of a cookie as it is: no semicolon,
  no equals sign, no white space.
\<close>

definition cookie_safe :: "jschar \<Rightarrow> bool" where
  "cookie_safe c = (c \<noteq> ch CHR '';'' \<and> c \<noteq> ch CHR ''='' \<and> \<not> white_space c)"

text \<open>
  A name of letters and digits, as the settings of the application have them.
\<close>

definition plain_name :: "jsstring \<Rightarrow> bool" where
  "plain_name s = (s \<noteq> [] \<and> list_all alnum s)"

text \<open>
  The cookies of the page as a browser keeps them: no two of one name, no empty name, a name
  without semicolon, equals sign and white space, and a value without semicolon.
  \<open>cookie_value\<close> is the value of the cookie of a name when that value is not empty.
\<close>

definition cookies_ok :: "(jsstring \<times> jsstring) list \<Rightarrow> bool" where
  "cookies_ok jar =
     (distinct (map fst jar)
      \<and> list_all (\<lambda>c. fst c \<noteq> [] \<and> list_all cookie_safe (fst c)
                        \<and> list_all (\<lambda>x. x \<noteq> ch CHR '';'') (snd c)) jar)"

definition cookie_value :: "(jsstring \<times> jsstring) list \<Rightarrow> jsstring \<Rightarrow> jsstring option" where
  "cookie_value jar name =
     (case map_of jar name of None \<Rightarrow> None | Some v \<Rightarrow> if v = [] then None else Some v)"

text \<open>
  The assignments that the override loop makes for a list of matches when nothing throws:
  for every match with non-empty groups whose decoded key is not \<open>title\<close>, the
  decoded key with the decoded value, \<open>true\<close> and \<open>false\<close> turned into
  booleans.
\<close>

definition decoded_pair :: "jsstring \<times> jsstring \<Rightarrow> (jsstring \<times> jsval) list" where
  "decoded_pair m =
     (if fst m \<noteq> [] \<and> snd m \<noteq> [] then
        (case (decodeURIComponent (fst m), decodeURIComponent (snd m)) of
           (Inr paramKey, Inr paramVal) \<Rightarrow>
             if paramKey \<noteq> js ''title'' then [(paramKey, param_value paramVal)] else []
         | _ \<Rightarrow> [])
      else [])"

definition decoded_pairs :: "(jsstring \<times> jsstring) list \<Rightarrow> (jsstring \<times> jsval) list" where
  "decoded_pairs ms = concat (map decoded_pair ms)"

text \<open>
  One such assignment, to \<open>params\<close> and to local storage under the key prefix
  \<open>kiwixjs-\<close>.
\<close>

definition assign_pair :: "jsstring \<times> jsval \<Rightarrow> jsobject \<Rightarrow> jsobject" where
  "assign_pair kv params = set_prop params (fst kv) (snd kv)"

definition store_pair :: "jsstring \<times> jsval \<Rightarrow> (jsstring \<rightharpoonup> jsstring) \<Rightarrow> (jsstring \<rightharpoonup> jsstring)" where
  "store_pair kv entries = entries(js ''kiwixjs-'' @ fst kv \<mapsto> to_string (snd kv))"

text \<open>
  The same assignment in the mode \<open>cookie\<close>: the cookie of the encoded key gets the
  encoded value.
\<close>

definition cookie_pair ::
  "jsstring \<times> jsval \<Rightarrow> (jsstring \<times> jsstring) list \<Rightarrow> (jsstring \<times> jsstring) list" where
  "cookie_pair kv jar =
     (case (encodeURIComponent (fst kv), encodeURIComponent (to_string (snd kv))) of
        (Inr n, Inr v) \<Rightarrow> if n = [] then jar else jar_store n v jar
      | _ \<Rightarrow> jar)"

text \<open>
  The state of the two alerts: the dismiss button of the active-content warning has the
  click listeners \<open>ha\<close> it had at the start, followed by the listener of the module
  exactly when the module has set the warning up (\<open>s1\<close>); the same for the two
  hyperlinks with \<open>l1\<close> and \<open>l2\<close>, and for the dismiss button of the download alert
  with \<open>hb\<close> and \<open>s2\<close>; and the two flags of the module are \<open>s1\<close> and
  \<open>s2\<close>.
\<close>

definition alerts_state ::
  "handler list \<Rightarrow> (jsstring \<times> handler) list \<Rightarrow> (jsstring \<times> handler) list \<Rightarrow> handler list
     \<Rightarrow> bool \<Rightarrow> bool \<Rightarrow> page \<Rightarrow> bool" where
  "alerts_state ha l1 l2 hb s1 s2 pg =
     (\<exists>a e1 e2 d.
        elements pg (js ''activeContent'') = Some a
        \<and> dataHideButton a = Some (ha @ (if s1 then [HideElement (js ''activeContent'')] else []))
        \<and> elements pg (js ''swModeLink'') = Some e1
        \<and> listeners e1 = l1 @ (if s1 then [(js ''click'', HighlightOption (js ''swModeLink''))] else [])
        \<and> elements pg (js ''stop'') = Some e2
        \<and> listeners e2 = l2 @ (if s1 then [(js ''click'', HighlightOption (js ''stop''))] else [])
        \<and> elements pg (js ''downloadAlert'') = Some d
        \<and> dataHideButton d = Some (hb @ (if s2 then [HideElement (js ''downloadAlert'')] else []))
        \<and> activeContentWarningSetup pg = s1
        \<and> downloadAlertSetup pg = s2)"

text \<open>A change to an element that leaves its listeners alone.\<close>

definition cosmetic :: "(element \<Rightarrow> element) \<Rightarrow> bool" where
  "cosmetic f = (\<forall>e. listeners (f e) = listeners e \<and> dataHideButton (f e) = dataHideButton e)"

text \<open>The events that are a call of \<open>displayFileDownloadAlert\<close>.\<close>

fun is_download_alert :: "alert_event \<Rightarrow> bool" where
  "is_download_alert (FileDownloadAlert title download contentType) = True"
| "is_download_alert ev = False"

text \<open>
  \<open>ends r Q E\<close>: the outcome \<open>r\<close> is a normal end in a state with \<open>Q\<close>, or an
  exception and a state with \<open>E\<close>.
\<close>

definition ends :: "'s outcome \<Rightarrow> ('s \<Rightarrow> bool) \<Rightarrow> (js_error \<Rightarrow> 's \<Rightarrow> bool) \<Rightarrow> bool" where
  "ends r Q E = (case r of Done s \<Rightarrow> Q s | Thrown e s \<Rightarrow> E e s)"

text \<open>The page has the elements of the modal that \<open>systemAlert\<close> fills in.\<close>

definition modal_elements :: "page \<Rightarrow> bool" where
  "modal_elements pg =
     list_all (\<lambda>i. elements pg i \<noteq> None)
       [js ''approveConfirm'', js ''declineConfirm'', js ''closeMessage'', js ''modalLabel'',
        js ''modalText'', js ''alertModal'']"

text \<open>
  The page has what \<open>applyAppTheme\<close> looks up without a test: the article frame, the
  navigation entry of the configuration section, the return link and a footer; the
  \<open>data-theme\<close> attribute of the root element, when it is there, has no white space
  (the function only ever writes a theme name to it); and the document of the frame, when
  it can be reached, has a head, and its first element with the id \<open>kiwixJSTheme\<close>,
  when there is one, has a string \<open>href\<close>.
\<close>

definition frame_head :: "page \<Rightarrow> bool" where
  "frame_head pg = (case articleDocument pg of None \<Rightarrow> True | Some d \<Rightarrow> headEnd d \<noteq> None)"

definition theme_page :: "page \<Rightarrow> bool" where
  "theme_page pg =
     (list_all (\<lambda>i. elements pg i \<noteq> None)
        [js ''articleContent'', js ''liConfigureNav'', js ''viewArticle'']
      \<and> footer pg \<noteq> None
      \<and> \<not> list_ex ascii_whitespace (case htmlTheme pg of None \<Rightarrow> [] | Some t \<Rightarrow> t)
      \<and> frame_head pg
      \<and> (case articleDocument pg of
            None \<Rightarrow> True
          | Some d \<Rightarrow> (case themeLinks d of [] \<Rightarrow> True | l # ls \<Rightarrow> l \<noteq> None)))"

text \<open>
  The state \<open>s\<close> has the theme \<open>dark_invert\<close>, and the elements of the page
  \<open>pg\<close>.
\<close>

definition themed :: "page \<Rightarrow> page \<Rightarrow> bool" where
  "themed pg s =
     (js ''dark'' \<in> set (htmlClassList s)
      \<and> (\<exists>cs. footer s = Some cs \<and> js ''_invert'' \<in> set cs)
      \<and> (\<forall>i. (elements s i = None) = (elements pg i = None)))"

text \<open>
  \<open>holds_after d r Q\<close>: the outcome \<open>r\<close> is a normal end in a state with \<open>Q\<close>;
  \<open>d\<close> is what is said of an exception (\<open>True\<close> to speak of the normal ends
  only, \<open>False\<close> to say that there is no exception).
\<close>

definition holds_after :: "bool \<Rightarrow> 's outcome \<Rightarrow> ('s \<Rightarrow> bool) \<Rightarrow> bool" where
  "holds_after d r Q = (case r of Done s \<Rightarrow> Q s | Thrown e s \<Rightarrow> d)"

section \<open>Properties of removeUrlParameters\<close>

lemma strip_tail_split:
  "\<exists>t. s = strip_tail m s @ t \<and> (t = [] \<or> m t)"
proof (induction s)
  case Nil
  show ?case by simp
next
  case (Cons c cs)
  show ?case
  proof (cases "m (c # cs)")
    case True
    then show ?thesis by simp
  next
    case False
    from Cons obtain t where "cs = strip_tail m cs @ t" and "t = [] \<or> m t" by blast
    with False show ?thesis by auto
  qed
qed

lemma strip_tail_id:
  "(\<And>t. suffix t s \<Longrightarrow> \<not> m t) \<Longrightarrow> strip_tail m s = s"
proof (induction s)
  case Nil
  show ?case by simp
next
  case (Cons c cs)
  have "\<not> m (c # cs)" using Cons.prems [of "c # cs"] by simp
  moreover have "strip_tail m cs = cs"
  proof (rule Cons.IH)
    fix t assume "suffix t cs"
    then have "suffix t (c # cs)" by (simp add: suffix_Cons)
    then show "\<not> m t" by (rule Cons.prems)
  qed
  ultimately show ?case by simp
qed

lemma query_tail_hd: "query_tail t \<Longrightarrow> t \<noteq> [] \<and> hd t = ch CHR ''?''"
  by (cases t) simp_all

lemma anchor_tail_hd: "anchor_tail t \<Longrightarrow> t \<noteq> [] \<and> hd t = ch CHR ''#''"
  by (cases t) simp_all

lemma suffix_hd_in_set: "suffix t s \<Longrightarrow> t \<noteq> [] \<Longrightarrow> hd t \<in> set s"
  by (metis hd_in_set set_mono_suffix subsetD)

text \<open>
  Claim C10. For every string \<open>url\<close>, \<open>removeUrlParameters url\<close> is a prefix of
  \<open>url\<close>: what is cut off is an anchor segment \<open>a\<close> (empty, or starting with a hash
  sign) followed by a query segment \<open>q\<close> (empty, or starting with a question mark). A
  \<open>url\<close> with neither a question mark nor a hash sign comes back unchanged.
\<close>

theorem removeUrlParameters_prefix:
  "prefix (removeUrlParameters url) url
   \<and> (\<exists>a q. url = removeUrlParameters url @ a @ q
          \<and> (a = [] \<or> hd a = ch CHR ''#'') \<and> (q = [] \<or> hd q = ch CHR ''?''))
   \<and> (ch CHR ''?'' \<notin> set url \<and> ch CHR ''#'' \<notin> set url \<longrightarrow> removeUrlParameters url = url)"
proof -
  obtain q where q: "url = strip_tail query_tail url @ q" "q = [] \<or> query_tail q"
    using strip_tail_split [of url query_tail] by blast
  obtain a where a: "strip_tail query_tail url
      = strip_tail anchor_tail (strip_tail query_tail url) @ a" "a = [] \<or> anchor_tail a"
    using strip_tail_split [of "strip_tail query_tail url" anchor_tail] by blast
  have r: "removeUrlParameters url = strip_tail anchor_tail (strip_tail query_tail url)"
    by (simp add: removeUrlParameters_def)
  have split: "url = removeUrlParameters url @ a @ q"
    using q(1) a(1) r by (metis append.assoc)
  have heads: "(a = [] \<or> hd a = ch CHR ''#'') \<and> (q = [] \<or> hd q = ch CHR ''?'')"
    using q(2) a(2) query_tail_hd anchor_tail_hd by blast
  have pre: "prefix (removeUrlParameters url) url"
    using split by (metis prefixI)
  have same: "removeUrlParameters url = url"
    if none: "ch CHR ''?'' \<notin> set url" "ch CHR ''#'' \<notin> set url"
  proof -
    have "strip_tail query_tail url = url"
    proof (rule strip_tail_id)
      fix t assume "suffix t url"
      with none(1) show "\<not> query_tail t"
        using query_tail_hd suffix_hd_in_set by metis
    qed
    moreover have "strip_tail anchor_tail url = url"
    proof (rule strip_tail_id)
      fix t assume "suffix t url"
      with none(2) show "\<not> anchor_tail t"
        using anchor_tail_hd suffix_hd_in_set by metis
    qed
    ultimately show ?thesis using r by simp
  qed
  from pre split heads same show ?thesis by blast
qed

theorem removeUrlParameters_prefix_witness:
  "ch CHR ''?'' \<notin> set (js ''A/Einstein.html'') \<and> ch CHR ''#'' \<notin> set (js ''A/Einstein.html'')
   \<and> removeUrlParameters (js ''A/Einstein.html'') = js ''A/Einstein.html''
   \<and> prefix (removeUrlParameters (js ''A/Einstein.html'')) (js ''A/Einstein.html'')"
proof -
  have none: "ch CHR ''?'' \<notin> set (js ''A/Einstein.html'')"
             "ch CHR ''#'' \<notin> set (js ''A/Einstein.html'')"
    by (simp_all add: js_def ch_def)
  with removeUrlParameters_prefix [of "js ''A/Einstein.html''"] show ?thesis by blast
qed

section \<open>Properties of the settings store\<close>

lemma param_value_cases:
  "param_value s = (if s = js ''true'' then JBool True
                    else if s = js ''false'' then JBool False else JStr s)"
  by (simp add: param_value_def js_or_def)

lemma to_string_param_value: "to_string (param_value s) = s"
  by (simp add: param_value_cases)

lemma stored_setting_shape:
  assumes "get_prop params (js ''storeType'') = JStr (js ''cookie'')
           \<or> get_prop params (js ''storeType'') = JStr (js ''local_storage'')"
    and "stored_setting params b name = Inr r"
  shows "r = JNull \<or> (\<exists>s. r = JStr s)"
  using assms
  by (auto simp: stored_setting_def
      split: if_splits regexp_result.splits list.splits sum.splits option.splits)

lemma setting_value_cases:
  "setting_value JNull = JNull"
  "setting_value (JStr s) =
     (if s = js ''undefined'' then JNull
      else if s = js ''true'' then JBool True
      else if s = js ''false'' then JBool False
      else JStr s)"
  by (simp_all add: setting_value_def)

lemma getSetting_local_storage:
  assumes "get_prop params (js ''storeType'') = JStr (js ''local_storage'')"
  shows "getSetting params b name =
           Inr (setting_value
                  (case localStorage b (to_string (get_prop params (js ''keyPrefix'')) @ name) of
                     None \<Rightarrow> JNull
                   | Some s \<Rightarrow> JStr s))"
proof -
  have "js ''local_storage'' \<noteq> js ''cookie''" by (simp add: js_def ch_def)
  with assms show ?thesis
    by (simp add: getSetting_def stored_setting_def split: option.splits)
qed

lemma getSetting_no_store:
  assumes "get_prop params (js ''storeType'') \<noteq> JStr (js ''cookie'')"
    and "get_prop params (js ''storeType'') \<noteq> JStr (js ''local_storage'')"
  shows "getSetting params b name = Inr JUndefined"
  using assms by (simp add: getSetting_def stored_setting_def setting_value_def)

lemma override_param_Done:
  assumes "override_param (k, v) (params, b) = Done (params', b')"
    and "k \<noteq> []" and "v \<noteq> []"
    and "decodeURIComponent k = Inr paramKey" and "decodeURIComponent v = Inr paramVal"
    and "paramKey \<noteq> js ''title''"
  shows "params' = set_prop params paramKey (param_value paramVal)
         \<and> setSetting params paramKey (param_value paramVal) b = Done b'"
  using assms by (auto simp: override_param_def Let_def split: outcome.splits)

text \<open>
  Claim C5, as amended. With the store type \<open>cookie\<close> or \<open>local_storage\<close>, every
  value that \<open>getSetting\<close> returns is \<open>null\<close>, a boolean or a string: what the
  store holds for the name is \<open>null\<close> (no entry) or a text, and \<open>getSetting\<close>
  returns \<open>null\<close> for no entry and for the text \<open>undefined\<close>, \<open>true\<close> for
  the text \<open>true\<close>, \<open>false\<close> for the text \<open>false\<close> and the text itself
  otherwise; in local storage the entry is the one under the key prefix followed by the
  name. With any other store type (\<open>getBestAvailableStorageAPI\<close> answers \<open>none\<close>
  when the browser offers neither storage) \<open>getSetting\<close> returns \<open>undefined\<close>.
  The override loop turns the decoded values \<open>true\<close> and \<open>false\<close> into booleans
  before it passes them to \<open>setSetting\<close> and assigns them to \<open>params\<close>, and leaves
  every other value a string.
\<close>

theorem getSetting_values:
  "(get_prop params (js ''storeType'') = JStr (js ''cookie'')
      \<or> get_prop params (js ''storeType'') = JStr (js ''local_storage'') \<longrightarrow>
      (\<forall>v. getSetting params b name = Inr v \<longrightarrow>
         (\<exists>r. stored_setting params b name = Inr r \<and> (r = JNull \<or> (\<exists>s. r = JStr s))
            \<and> v = (if r = JNull \<or> r = JStr (js ''undefined'') then JNull
                    else if r = JStr (js ''true'') then JBool True
                    else if r = JStr (js ''false'') then JBool False
                    else r))))
   \<and> (get_prop params (js ''storeType'') = JStr (js ''local_storage'') \<longrightarrow>
        stored_setting params b name =
          Inr (case localStorage b (to_string (get_prop params (js ''keyPrefix'')) @ name) of
                 None \<Rightarrow> JNull
               | Some s \<Rightarrow> JStr s))
   \<and> (get_prop params (js ''storeType'') \<noteq> JStr (js ''cookie'')
        \<and> get_prop params (js ''storeType'') \<noteq> JStr (js ''local_storage'') \<longrightarrow>
        getSetting params b name = Inr JUndefined)
   \<and> (\<forall>k v paramKey paramVal params' b'.
         override_param (k, v) (params, b) = Done (params', b') \<and> k \<noteq> [] \<and> v \<noteq> []
         \<and> decodeURIComponent k = Inr paramKey \<and> decodeURIComponent v = Inr paramVal
         \<and> paramKey \<noteq> js ''title'' \<longrightarrow>
         (\<exists>val. val = (if paramVal = js ''true'' then JBool True
                       else if paramVal = js ''false'' then JBool False
                       else JStr paramVal)
            \<and> params' = set_prop params paramKey val
            \<and> setSetting params paramKey val b = Done b'))"
proof (intro conjI impI allI)
  fix v
  assume mode: "get_prop params (js ''storeType'') = JStr (js ''cookie'')
                \<or> get_prop params (js ''storeType'') = JStr (js ''local_storage'')"
    and got: "getSetting params b name = Inr v"
  from got obtain r where r: "stored_setting params b name = Inr r" and v: "v = setting_value r"
    by (auto simp: getSetting_def split: sum.splits)
  from stored_setting_shape [OF mode r] have "r = JNull \<or> (\<exists>s. r = JStr s)" .
  with r v show "\<exists>r. stored_setting params b name = Inr r \<and> (r = JNull \<or> (\<exists>s. r = JStr s))
            \<and> v = (if r = JNull \<or> r = JStr (js ''undefined'') then JNull
                    else if r = JStr (js ''true'') then JBool True
                    else if r = JStr (js ''false'') then JBool False
                    else r)"
    by (auto simp: setting_value_def)
next
  assume mode: "get_prop params (js ''storeType'') = JStr (js ''local_storage'')"
  have "js ''local_storage'' \<noteq> js ''cookie''" by (simp add: js_def ch_def)
  with mode show "stored_setting params b name =
          Inr (case localStorage b (to_string (get_prop params (js ''keyPrefix'')) @ name) of
                 None \<Rightarrow> JNull
               | Some s \<Rightarrow> JStr s)"
    by (simp add: stored_setting_def split: option.splits)
next
  assume "get_prop params (js ''storeType'') \<noteq> JStr (js ''cookie'')
          \<and> get_prop params (js ''storeType'') \<noteq> JStr (js ''local_storage'')"
  then show "getSetting params b name = Inr JUndefined"
    using getSetting_no_store by blast
next
  fix k v paramKey paramVal params' b'
  assume a: "override_param (k, v) (params, b) = Done (params', b') \<and> k \<noteq> [] \<and> v \<noteq> []
         \<and> decodeURIComponent k = Inr paramKey \<and> decodeURIComponent v = Inr paramVal
         \<and> paramKey \<noteq> js ''title''"
  then have "params' = set_prop params paramKey (param_value paramVal)
         \<and> setSetting params paramKey (param_value paramVal) b = Done b'"
    using override_param_Done by blast
  then show "\<exists>val. val = (if paramVal = js ''true'' then JBool True
                       else if paramVal = js ''false'' then JBool False
                       else JStr paramVal)
            \<and> params' = set_prop params paramKey val
            \<and> setSetting params paramKey val b = Done b'"
    by (simp add: param_value_cases)
qed

section \<open>What setSetting writes and getSetting reads\<close>

text \<open>
  The text that \<open>encodeURIComponent\<close> returns has unreserved characters, percent
  signs and hexadecimal digits only, so the browser reads the string that
  \<open>setSetting\<close> assigns to \<open>document.cookie\<close> as the cookie of that name and
  value.
\<close>

lemma hex_digits_alnum: "\<forall>n \<in> {..<16}. alnum (hex_digit n)"
  by (simp add: lessThan_nat_numeral lessThan_Suc hex_digit_def alnum_def ch_def)

lemma hex_digit_alnum: "n < 16 \<Longrightarrow> alnum (hex_digit n)"
  using hex_digits_alnum by simp

lemma alnum_safe: "alnum c \<Longrightarrow> cookie_safe c \<and> c \<noteq> ch CHR ''%''"
  by (auto simp: alnum_def cookie_safe_def white_space_def ch_def word_le_nat_alt)

lemma unreserved_safe: "uri_unreserved c \<Longrightarrow> cookie_safe c \<and> c \<noteq> ch CHR ''%''"
  by (auto simp: uri_unreserved_def alnum_def cookie_safe_def white_space_def ch_def js_def
      word_le_nat_alt)

lemma percent_safe: "b < 256 \<Longrightarrow> c \<in> set (percent b) \<Longrightarrow> cookie_safe c"
proof -
  assume b: "b < 256" and c: "c \<in> set (percent b)"
  have "b div 16 < 16" "b mod 16 < 16" using b by auto
  then have "alnum (hex_digit (b div 16))" "alnum (hex_digit (b mod 16))"
    by (simp_all add: hex_digit_alnum)
  moreover have "cookie_safe (ch CHR ''%'')" by (simp add: cookie_safe_def white_space_def ch_def)
  ultimately show ?thesis using c alnum_safe by (auto simp: percent_def)
qed

lemma utf8_octets_bound: "cp < 0x200000 \<Longrightarrow> b \<in> set (utf8_octets cp) \<Longrightarrow> b < 256"
  by (auto simp: utf8_octets_def split: if_splits)

lemma percent_octets_safe:
  "cp < 0x200000 \<Longrightarrow> \<forall>c \<in> set (concat (map percent (utf8_octets cp))). cookie_safe c"
  using utf8_octets_bound percent_safe by auto

lemma unat_jschar_bound: "unat (c :: jschar) < 0x200000"
proof -
  have "unat c < 2 ^ 16" using unsigned_less [of c] by simp
  then show ?thesis by simp
qed

lemma surrogate_pair_bound:
  "high_surrogate c \<Longrightarrow> low_surrogate d \<Longrightarrow>
   0x10000 + (unat c - 0xD800) * 1024 + (unat d - 0xDC00) < (0x200000 :: nat)"
proof -
  assume "high_surrogate c" "low_surrogate d"
  then have "unat c \<le> 0xDBFF" "unat d \<le> 0xDFFF"
    by (simp_all add: high_surrogate_def low_surrogate_def word_le_nat_alt)
  then show ?thesis by simp
qed

lemma prepend_safe:
  assumes "prepend p r = Inr t" and "\<forall>c \<in> set p. cookie_safe c"
    and "\<And>u. r = Inr u \<Longrightarrow> \<forall>c \<in> set u. cookie_safe c"
  shows "\<forall>c \<in> set t. cookie_safe c"
  using assms by (cases r) (auto simp: prepend_def)

lemma encodeURIComponent_safe:
  "encodeURIComponent s = Inr t \<Longrightarrow> \<forall>c \<in> set t. cookie_safe c"
proof (induction s arbitrary: t rule: encodeURIComponent.induct)
  case 1
  then show ?case by simp
next
  case (2 x)
  show ?case
  proof (cases "uri_unreserved x")
    case True
    with 2 show ?thesis using unreserved_safe by auto
  next
    case False
    with 2 have "t = concat (map percent (utf8_octets (unat x)))"
      by (auto split: if_splits)
    then show ?thesis using percent_octets_safe [OF unat_jschar_bound] by simp
  qed
next
  case (3 x d ds)
  show ?case
  proof (cases "uri_unreserved x")
    case True
    with "3.prems" have "prepend [x] (encodeURIComponent (d # ds)) = Inr t" by simp
    then show ?thesis
    proof (rule prepend_safe)
      show "\<forall>c \<in> set [x]. cookie_safe c" using True unreserved_safe by simp
    next
      fix u assume "encodeURIComponent (d # ds) = Inr u"
      then show "\<forall>c \<in> set u. cookie_safe c" by (rule "3.IH"(1) [OF True])
    qed
  next
    case nu: False
    show ?thesis
    proof (cases "high_surrogate x")
      case hs: True
      show ?thesis
      proof (cases "low_surrogate d")
        case False
        with nu hs "3.prems" show ?thesis by simp
      next
        case ls: True
        let ?cp = "0x10000 + (unat x - 0xD800) * 1024 + (unat d - 0xDC00)"
        from nu hs ls "3.prems"
        have "prepend (concat (map percent (utf8_octets ?cp))) (encodeURIComponent ds) = Inr t"
          by simp
        then show ?thesis
        proof (rule prepend_safe)
          show "\<forall>c \<in> set (concat (map percent (utf8_octets ?cp))). cookie_safe c"
            by (rule percent_octets_safe [OF surrogate_pair_bound [OF hs ls]])
        next
          fix u assume "encodeURIComponent ds = Inr u"
          then show "\<forall>c \<in> set u. cookie_safe c" by (rule "3.IH"(2) [OF nu hs ls])
        qed
      qed
    next
      case nh: False
      show ?thesis
      proof (cases "low_surrogate x")
        case True
        with nu nh "3.prems" show ?thesis by simp
      next
        case nl: False
        from nu nh nl "3.prems"
        have "prepend (concat (map percent (utf8_octets (unat x)))) (encodeURIComponent (d # ds))
                = Inr t"
          by simp
        then show ?thesis
        proof (rule prepend_safe)
          show "\<forall>c \<in> set (concat (map percent (utf8_octets (unat x)))). cookie_safe c"
            by (rule percent_octets_safe [OF unat_jschar_bound])
        next
          fix u assume "encodeURIComponent (d # ds) = Inr u"
          then show "\<forall>c \<in> set u. cookie_safe c" by (rule "3.IH"(3) [OF nu nh nl])
        qed
      qed
    qed
  qed
qed

lemma trim_wsp_id: "(\<And>c. c \<in> set s \<Longrightarrow> \<not> wsp c) \<Longrightarrow> trim_wsp s = s"
proof -
  assume a: "\<And>c. c \<in> set s \<Longrightarrow> \<not> wsp c"
  have keep: "dropWhile wsp xs = xs" if "\<And>c. c \<in> set xs \<Longrightarrow> \<not> wsp c" for xs :: jsstring
    using that by (cases xs) auto
  have "dropWhile wsp s = s" using a by (rule keep)
  moreover have "dropWhile wsp (rev s) = rev s" using a by (intro keep) simp
  ultimately show ?thesis by (simp add: trim_wsp_def)
qed

lemma wsp_white_space: "wsp c \<Longrightarrow> white_space c"
  by (auto simp: wsp_def white_space_def)

lemma cookie_assign_pair:
  assumes "\<And>c. c \<in> set n \<Longrightarrow> cookie_safe c" and "\<And>c. c \<in> set v \<Longrightarrow> cookie_safe c"
  shows "cookie_assign (n @ js ''='' @ v @ js '';expires=Fri, 31 Dec 9999 23:59:59 GMT'') jar
           = (if n = [] then jar else jar_store n v jar)"
proof -
  have n: "c \<noteq> ch CHR '';'' \<and> c \<noteq> ch CHR ''='' \<and> \<not> wsp c" if "c \<in> set n" for c
    using assms(1) [OF that] wsp_white_space [of c] by (auto simp: cookie_safe_def)
  have v: "c \<noteq> ch CHR '';'' \<and> c \<noteq> ch CHR ''='' \<and> \<not> wsp c" if "c \<in> set v" for c
    using assms(2) [OF that] wsp_white_space [of c] by (auto simp: cookie_safe_def)
  let ?rest = "js ''expires=Fri, 31 Dec 9999 23:59:59 GMT''"
  have s: "js '';expires=Fri, 31 Dec 9999 23:59:59 GMT'' = ch CHR '';'' # ?rest"
    by (simp add: js_def)
  have e: "js ''='' = [ch CHR ''='']" by (simp add: js_def)
  have ne: "ch CHR ''='' \<noteq> ch CHR '';''" by (simp add: ch_def)
  have pair: "takeWhile (\<lambda>c. c \<noteq> ch CHR '';'') (n @ js ''='' @ v @ js '';expires=Fri, 31 Dec 9999 23:59:59 GMT'')
          = n @ [ch CHR ''=''] @ v"
    unfolding s e using n v ne
    by (simp add: takeWhile_append takeWhile_eq_all_conv [THEN iffD2] takeWhile_tail)
  have name: "trim_wsp (takeWhile (\<lambda>c. c \<noteq> ch CHR ''='') (n @ [ch CHR ''=''] @ v)) = n"
    using n by (simp add: takeWhile_append trim_wsp_id takeWhile_eq_all_conv [THEN iffD2])
  have val: "trim_wsp (tl (dropWhile (\<lambda>c. c \<noteq> ch CHR ''='') (n @ [ch CHR ''=''] @ v))) = v"
    using n v by (simp add: dropWhile_append trim_wsp_id)
  show ?thesis
    unfolding cookie_assign_def pair Let_def name val by simp
qed

lemma to_string_boolean_value:
  "to_string (if val = JStr (js ''false'') then JBool False
              else if val = JStr (js ''true'') then JBool True else val) = to_string val"
  by simp

lemma setSetting_local_storage:
  assumes "get_prop params (js ''storeType'') = JStr (js ''local_storage'')"
  shows "setSetting params name val b =
           Done (b\<lparr>localStorage := (localStorage b)
                   (to_string (get_prop params (js ''keyPrefix'')) @ name \<mapsto> to_string val)\<rparr>)"
proof -
  have "js ''local_storage'' \<noteq> js ''cookie''" by (simp add: js_def ch_def)
  with assms show ?thesis
    by (simp add: setSetting_def Let_def to_string_boolean_value del: to_string.simps)
qed

lemma setSetting_cookie:
  assumes "get_prop params (js ''storeType'') = JStr (js ''cookie'')"
    and "setSetting params name val b = Done b'"
  shows "\<exists>n v. encodeURIComponent name = Inr n \<and> encodeURIComponent (to_string val) = Inr v
           \<and> b' = b\<lparr>cookieJar := (if n = [] then cookieJar b else jar_store n v (cookieJar b))\<rparr>"
proof -
  have ne: "js ''cookie'' \<noteq> js ''local_storage''" by (simp add: js_def ch_def)
  from assms ne obtain n v where n: "encodeURIComponent name = Inr n"
    and v: "encodeURIComponent (to_string val) = Inr v"
    and b': "b' = b\<lparr>cookieJar := cookie_assign
               (n @ js ''='' @ v @ js '';expires=Fri, 31 Dec 9999 23:59:59 GMT'') (cookieJar b)\<rparr>"
    by (auto simp: setSetting_def Let_def split: sum.splits if_splits)
  have "cookie_assign (n @ js ''='' @ v @ js '';expires=Fri, 31 Dec 9999 23:59:59 GMT'') (cookieJar b)
          = (if n = [] then cookieJar b else jar_store n v (cookieJar b))"
    using encodeURIComponent_safe [OF n] encodeURIComponent_safe [OF v]
    by (intro cookie_assign_pair) blast+
  with n v b' show ?thesis by simp
qed

lemma setSetting_Thrown_state: "setSetting p key val b = Thrown e b' \<Longrightarrow> b' = b"
  by (auto simp: setSetting_def Let_def split: sum.splits if_splits)

lemma getSetting_cookie_ignores_local_storage:
  assumes "get_prop params (js ''storeType'') = JStr (js ''cookie'')"
  shows "getSetting params (b\<lparr>localStorage := ls\<rparr>) name = getSetting params b name"
  using assms by (simp add: getSetting_def stored_setting_def cookie_match_def)

section \<open>The cookie that getSetting reads\<close>

lemma percent_head: "percent b = ch CHR ''%'' # tl (percent b)"
  by (simp add: percent_def)

lemma utf8_octets_nonempty: "utf8_octets cp \<noteq> []"
  by (simp add: utf8_octets_def)

lemma percent_octets_have_percent: "ch CHR ''%'' \<in> set (concat (map percent (utf8_octets cp)))"
proof -
  obtain b bs where "utf8_octets cp = b # bs"
    using utf8_octets_nonempty by (cases "utf8_octets cp") auto
  then show ?thesis by (simp add: percent_def)
qed

lemma prepend_Inr: "prepend p r = Inr t \<Longrightarrow> \<exists>u. r = Inr u \<and> t = p @ u"
  by (cases r) (auto simp: prepend_def)

lemma encodeURIComponent_plain:
  "encodeURIComponent s = Inr t \<Longrightarrow> ch CHR ''%'' \<notin> set t \<Longrightarrow> t = s"
proof (induction s arbitrary: t rule: encodeURIComponent.induct)
  case 1
  then show ?case by simp
next
  case (2 x)
  then show ?case
    using percent_octets_have_percent [of "unat x"] by (auto split: if_splits)
next
  case (3 x d ds)
  show ?case
  proof (cases "uri_unreserved x")
    case True
    with "3.prems"(1) obtain u where u: "encodeURIComponent (d # ds) = Inr u" and t: "t = [x] @ u"
      using prepend_Inr by fastforce
    with "3.prems"(2) have "ch CHR ''%'' \<notin> set u" by simp
    with "3.IH"(1) [OF True u] t show ?thesis by simp
  next
    case nu: False
    have "\<exists>cp u. t = concat (map percent (utf8_octets cp)) @ u"
      using nu "3.prems"(1) by (auto split: if_splits dest!: prepend_Inr)
    then obtain cp u where "t = concat (map percent (utf8_octets cp)) @ u" by blast
    with "3.prems"(2) percent_octets_have_percent [of cp] show ?thesis by simp
  qed
qed

lemma map_of_jar_store: "map_of (jar_store n v jar) k = (if k = n then Some v else map_of jar k)"
  by (induction jar) auto

subsection \<open>decodeURIComponent undoes encodeURIComponent\<close>

lemma hex_values: "\<forall>n \<in> {..<16}. hex_value (hex_digit n) = Some n"
  by (simp add: lessThan_nat_numeral lessThan_Suc hex_digit_def hex_value_def ch_def)

lemma hex_value_digit: "n < 16 \<Longrightarrow> hex_value (hex_digit n) = Some n"
  using hex_values by simp

lemma read_octet_percent:
  assumes "b < 256"
  shows "read_octet (percent b @ rest) = Some (b, rest)"
proof -
  from assms have "b div 16 < 16" "b mod 16 < 16" by simp_all
  then show ?thesis
    by (simp add: percent_def hex_value_digit)
qed

lemma read_continuation_1:
  assumes "0x80 \<le> b" "b < 0xC0"
  shows "read_continuation (Suc 0) (percent b @ rest) = Some ([b], rest)"
  using assms by (simp add: read_octet_percent)

lemma decode_percent:
  assumes "b < 256"
  shows "decodeURIComponent (percent b @ rest) =
     (if b < 0x80 then prepend [of_nat b] (decodeURIComponent rest)
      else if b < 0xC0 \<or> 0xF8 \<le> b then Inl URIError
      else
        (case read_continuation (if b < 0xE0 then 1 else if b < 0xF0 then 2 else 3) rest of
           None \<Rightarrow> Inl URIError
         | Some (bs, rest') \<Rightarrow>
             (case utf8_code_point b bs of
                None \<Rightarrow> Inl URIError
              | Some cp \<Rightarrow> prepend (utf16_units cp) (decodeURIComponent rest'))))"
proof -
  define s where "s = tl (percent b) @ rest"
  have split: "percent b @ rest = ch CHR ''%'' # s"
    by (simp add: percent_def s_def)
  have "read_octet (ch CHR ''%'' # s) = Some (b, rest)"
    using read_octet_percent [OF assms, of rest] by (simp only: split)
  then show ?thesis
    unfolding split by (subst decodeURIComponent.simps(2)) (simp only: simp_thms if_False option.case prod.case)
qed


lemma read_continuation_percent:
  assumes "b < 256"
  shows "read_continuation (Suc n) (percent b @ rest) =
     (if 0x80 \<le> b \<and> b < 0xC0
      then (case read_continuation n rest of
              None \<Rightarrow> None
            | Some (bs, rest') \<Rightarrow> Some (b # bs, rest'))
      else None)"
  by (simp add: read_octet_percent [OF assms])

lemma read_continuations:
  assumes "0x80 \<le> b1" "b1 < 0xC0" "0x80 \<le> b2" "b2 < 0xC0" "0x80 \<le> b3" "b3 < 0xC0"
  shows "read_continuation 1 (percent b1 @ rest) = Some ([b1], rest)"
    and "read_continuation 2 (percent b1 @ percent b2 @ rest) = Some ([b1, b2], rest)"
    and "read_continuation 3 (percent b1 @ percent b2 @ percent b3 @ rest) = Some ([b1, b2, b3], rest)"
  using assms by (simp_all add: numeral_2_eq_2 numeral_3_eq_3 read_octet_percent)

lemma two_parts: "(q :: nat) div 64 * (64 * k) + q mod 64 * k = q * k"
proof -
  have "(q div 64 * 64 + q mod 64) * k = q * k" by simp
  then show ?thesis by (simp only: add_mult_distrib mult.assoc)
qed

lemma three_parts: "(n :: nat) div 4096 * 4096 + n div 64 mod 64 * 64 + n mod 64 = n"
proof -
  have a: "n div 4096 = n div 64 div 64" by (simp add: div_mult2_eq)
  from two_parts [of "n div 64" 64]
  have "n div 4096 * 4096 + n div 64 mod 64 * 64 = n div 64 * 64"
    by (simp add: a)
  then show ?thesis by simp
qed

lemma four_parts:
  "(n :: nat) div 262144 * 262144 + n div 4096 mod 64 * 4096 + n div 64 mod 64 * 64 + n mod 64 = n"
proof -
  have a: "n div 262144 = n div 4096 div 64" by (simp add: div_mult2_eq)
  from two_parts [of "n div 4096" 4096]
  have "n div 262144 * 262144 + n div 4096 mod 64 * 4096 = n div 4096 * 4096"
    by (simp add: a)
  then show ?thesis using three_parts [of n] by simp
qed

lemma decode_code_point:
  assumes "cp < 0x110000" and "\<not> (0xD800 \<le> cp \<and> cp \<le> 0xDFFF)"
  shows "decodeURIComponent (concat (map percent (utf8_octets cp)) @ rest)
           = prepend (utf16_units cp) (decodeURIComponent rest)"
proof -
  consider (one) "cp < 0x80" | (two) "0x80 \<le> cp" "cp < 0x800"
    | (three) "0x800 \<le> cp" "cp < 0x10000" | (four) "0x10000 \<le> cp"
    by linarith
  then show ?thesis
  proof cases
    case one
    then have "utf8_octets cp = [cp]" by (simp add: utf8_octets_def)
    moreover from one have "cp < 256" by simp
    ultimately show ?thesis using one by (simp add: decode_percent utf16_units_def)
  next
    case two
    define b0 b1 where "b0 = 0xC0 + cp div 64" and "b1 = 0x80 + cp mod 64"
    have o: "utf8_octets cp = [b0, b1]" using two by (simp add: utf8_octets_def b0_def b1_def)
    have r: "0xC0 \<le> b0" "b0 < 0xE0" "0x80 \<le> b1" "b1 < 0xC0"
      using two by (simp_all add: b0_def b1_def)
    have cp: "utf8_code_point b0 [b1] = Some cp"
      using two by (simp add: utf8_code_point_def b0_def b1_def)
    have more: "read_continuation 1 (percent b1 @ rest) = Some ([b1], rest)"
      using r by (intro read_continuations) simp_all
    from r have "b0 < 256" by simp
    from decode_percent [OF this, of "percent b1 @ rest"] r more cp show ?thesis
      unfolding o by simp
  next
    case three
    define b0 b1 b2 where "b0 = 0xE0 + cp div 4096" and "b1 = 0x80 + cp div 64 mod 64"
      and "b2 = 0x80 + cp mod 64"
    have o: "utf8_octets cp = [b0, b1, b2]"
      using three by (simp add: utf8_octets_def b0_def b1_def b2_def)
    have r: "0xE0 \<le> b0" "b0 < 0xF0" "0x80 \<le> b1" "b1 < 0xC0" "0x80 \<le> b2" "b2 < 0xC0"
      using three by (simp_all add: b0_def b1_def b2_def)
    have "cp div 4096 * 4096 + cp div 64 mod 64 * 64 + cp mod 64 = cp"
      by (rule three_parts)
    then have cp: "utf8_code_point b0 [b1, b2] = Some cp"
      using three assms(2) by (simp add: utf8_code_point_def b0_def b1_def b2_def)
    have more: "read_continuation 2 (percent b1 @ percent b2 @ rest) = Some ([b1, b2], rest)"
      using r by (intro read_continuations) simp_all
    from r have "b0 < 256" by simp
    from decode_percent [OF this, of "percent b1 @ percent b2 @ rest"] r more cp show ?thesis
      unfolding o by simp
  next
    case four
    define b0 b1 b2 b3 where "b0 = 0xF0 + cp div 262144" and "b1 = 0x80 + cp div 4096 mod 64"
      and "b2 = 0x80 + cp div 64 mod 64" and "b3 = 0x80 + cp mod 64"
    have o: "utf8_octets cp = [b0, b1, b2, b3]"
      using four by (simp add: utf8_octets_def b0_def b1_def b2_def b3_def)
    have r: "0xF0 \<le> b0" "b0 < 0xF8" "0x80 \<le> b1" "b1 < 0xC0" "0x80 \<le> b2" "b2 < 0xC0"
      "0x80 \<le> b3" "b3 < 0xC0"
      using four assms(1) by (simp_all add: b0_def b1_def b2_def b3_def)
    have "cp div 262144 * 262144 + cp div 4096 mod 64 * 4096 + cp div 64 mod 64 * 64 + cp mod 64 = cp"
      by (rule four_parts)
    then have cp: "utf8_code_point b0 [b1, b2, b3] = Some cp"
      using four assms(1) by (simp add: utf8_code_point_def b0_def b1_def b2_def b3_def)
    have more: "read_continuation 3 (percent b1 @ percent b2 @ percent b3 @ rest)
                  = Some ([b1, b2, b3], rest)"
      using r by (intro read_continuations) simp_all
    from r have "b0 < 256" by simp
    from decode_percent [OF this, of "percent b1 @ percent b2 @ percent b3 @ rest"] r more cp
    show ?thesis
      unfolding o by simp
  qed
qed


lemma utf16_units_unit: "utf16_units (unat (c :: jschar)) = [c]"
proof -
  have "unat c < 2 ^ 16" using unsigned_less [of c] by simp
  then show ?thesis by (simp add: utf16_units_def)
qed

lemma utf16_units_pair:
  assumes "high_surrogate c" and "low_surrogate d"
  shows "utf16_units (0x10000 + (unat c - 0xD800) * 1024 + (unat d - 0xDC00)) = [c, d]"
proof -
  define h l where "h = unat c - 0xD800" and "l = unat d - 0xDC00"
  from assms have c: "0xD800 \<le> unat c" "unat c \<le> 0xDBFF" and d: "0xDC00 \<le> unat d" "unat d \<le> 0xDFFF"
    by (simp_all add: high_surrogate_def low_surrogate_def word_le_nat_alt)
  then have hl: "h < 1024" "l < 1024" by (simp_all add: h_def l_def)
  have again: "0xD800 + h = unat c" "0xDC00 + l = unat d" using c d by (simp_all add: h_def l_def)
  have "utf16_units (0x10000 + h * 1024 + l) = [of_nat (0xD800 + h), of_nat (0xDC00 + l)]"
    using hl by (simp add: utf16_units_def)
  then show ?thesis unfolding again by (simp add: h_def l_def)
qed

lemma decode_unit:
  assumes "\<not> high_surrogate c" and "\<not> low_surrogate c"
  shows "decodeURIComponent (concat (map percent (utf8_octets (unat c))) @ rest)
           = prepend [c] (decodeURIComponent rest)"
proof -
  have "unat c < 2 ^ 16" using unsigned_less [of c] by simp
  then have "unat c < 0x110000" by simp
  moreover from assms have "\<not> (0xD800 \<le> unat c \<and> unat c \<le> 0xDFFF)"
    by (auto simp: high_surrogate_def low_surrogate_def word_le_nat_alt)
  ultimately show ?thesis
    by (simp add: decode_code_point utf16_units_unit)
qed

lemma decode_pair:
  assumes "high_surrogate c" and "low_surrogate d"
  shows "decodeURIComponent (concat (map percent (utf8_octets
            (0x10000 + (unat c - 0xD800) * 1024 + (unat d - 0xDC00)))) @ rest)
           = prepend [c, d] (decodeURIComponent rest)"
proof -
  from assms have "unat c \<le> 0xDBFF" "unat d \<le> 0xDFFF"
    by (simp_all add: high_surrogate_def low_surrogate_def word_le_nat_alt)
  then have "0x10000 + (unat c - 0xD800) * 1024 + (unat d - 0xDC00) < (0x110000 :: nat)"
    by simp
  then show ?thesis
    using utf16_units_pair [OF assms] by (simp add: decode_code_point)
qed

lemma decode_unreserved:
  "uri_unreserved c \<Longrightarrow> decodeURIComponent (c # rest) = prepend [c] (decodeURIComponent rest)"
  using unreserved_safe [of c] by simp

lemma prepend_prepend: "prepend p (prepend q r) = prepend (p @ q) r"
  by (cases r) (simp_all add: prepend_def)

lemma decodeURIComponent_encodeURIComponent:
  "encodeURIComponent s = Inr t \<Longrightarrow> decodeURIComponent t = Inr s"
proof (induction s arbitrary: t rule: encodeURIComponent.induct)
  case 1
  then show ?case by simp
next
  case (2 c)
  show ?case
  proof (cases "uri_unreserved c")
    case True
    with 2 have "t = [c]" by simp
    with True show ?thesis
      by (simp add: decode_unreserved prepend_def del: decodeURIComponent.simps(2))
  next
    case False
    with 2 have ns: "\<not> high_surrogate c" "\<not> low_surrogate c"
      and t: "t = concat (map percent (utf8_octets (unat c))) @ []"
      by (auto split: if_splits)
    show ?thesis unfolding t decode_unit [OF ns] by (simp add: prepend_def)
  qed
next
  case (3 c d ds)
  show ?case
  proof (cases "uri_unreserved c")
    case True
    with "3.prems" obtain u where u: "encodeURIComponent (d # ds) = Inr u" and t: "t = [c] @ u"
      using prepend_Inr by fastforce
    from "3.IH"(1) [OF True u] t True show ?thesis
      by (simp add: decode_unreserved prepend_def del: decodeURIComponent.simps(2))
  next
    case nu: False
    show ?thesis
    proof (cases "high_surrogate c")
      case True
      with nu "3.prems" have low: "low_surrogate d" by (auto split: if_splits)
      with nu True "3.prems" obtain u where u: "encodeURIComponent ds = Inr u"
        and t: "t = concat (map percent (utf8_octets
                  (0x10000 + (unat c - 0xD800) * 1024 + (unat d - 0xDC00)))) @ u"
        using prepend_Inr by fastforce
      from "3.IH"(2) [OF nu True low u] show ?thesis
        unfolding t decode_pair [OF True low] by (simp add: prepend_def)
    next
      case False
      with nu "3.prems" have nl: "\<not> low_surrogate c" by (auto split: if_splits)
      with nu False "3.prems" obtain u where u: "encodeURIComponent (d # ds) = Inr u"
        and t: "t = concat (map percent (utf8_octets (unat c))) @ u"
        using prepend_Inr by fastforce
      from "3.IH"(3) [OF nu False nl u] show ?thesis
        unfolding t decode_unit [OF False nl] by (simp add: prepend_def)
    qed
  qed
qed

subsection \<open>The match of the pattern of getSetting\<close>

text \<open>
  For a name of letters and digits, the pattern of \<open>getSetting\<close> finds in
  \<open>document.cookie\<close> the value of the cookie of that name, unless that value is empty.
\<close>

lemma alnum_literal:
  "alnum c \<Longrightarrow> c \<noteq> ch CHR ''.'' \<and> c \<noteq> ch CHR ''='' \<and> c \<noteq> ch CHR '';'' \<and> \<not> white_space c
     \<and> \<not> syntax_character c"
  by (auto simp: alnum_def white_space_def syntax_character_def ch_def js_def word_le_nat_alt)

lemma plain_name_simple: "plain_name name \<Longrightarrow> simple_pattern name"
  by (auto simp: plain_name_def simple_pattern_def list_all_iff alnum_literal)

lemma pattern_here_literal:
  assumes "list_all alnum name"
  shows "pattern_here name s = (if prefix name s then Some (drop (length name) s) else None)"
  using assms
proof (induction name s rule: pattern_here.induct)
  case (1 s)
  show ?case by simp
next
  case (2 p ps)
  show ?case by simp
next
  case (3 p ps c cs)
  then show ?case by (auto simp: alnum_literal)
qed


lemma cookie_string_Cons:
  "cookie_string ((m, w) # rest)
     = m @ ch CHR ''='' # w @ (if rest = [] then []
                              else ch CHR '';'' # ch CHR '' '' # cookie_string rest)"
  by (cases rest) (auto simp: js_def)

lemma cookie_scan_skip:
  "ch CHR '';'' \<notin> set p \<Longrightarrow> cookie_scan name (p @ s) = cookie_scan name s"
  by (induction p) (auto simp: after_semicolon_def)

lemma plain_name_head:
  assumes "plain_name name" and "\<not> alnum c"
  shows "cookie_value_here name (c # s) = None"
proof -
  from assms(1) obtain x xs where "name = x # xs" and "alnum x"
    by (cases name) (auto simp: plain_name_def)
  with assms(2) have "\<not> prefix name (c # s)" by auto
  with assms(1) show ?thesis
    by (simp add: cookie_value_here_def pattern_here_literal plain_name_def)
qed

lemma cookie_value_here_pair:
  assumes name: "plain_name name"
    and m: "ch CHR ''='' \<notin> set m"
    and w: "ch CHR '';'' \<notin> set w"
    and t: "t = [] \<or> hd t = ch CHR '';''"
  shows "cookie_value_here name (m @ ch CHR ''='' # w @ t)
           = (if m = name \<and> w \<noteq> [] then Some w else None)"
proof -
  let ?s = "m @ ch CHR ''='' # w @ t"
  have taken: "takeWhile (\<lambda>c. c \<noteq> ch CHR '';'') (w @ t) = w"
    using w t by (cases t) (auto simp: takeWhile_append takeWhile_eq_all_conv [THEN iffD2])
  have no_eq: "ch CHR ''='' \<notin> set name"
    using name alnum_literal by (auto simp: plain_name_def list_all_iff)
  show ?thesis
  proof (cases "m = name")
    case True
    then show ?thesis
      using name taken by (simp add: cookie_value_here_def pattern_here_literal plain_name_def)
  next
    case False
    have "cookie_value_here name ?s = None"
    proof (cases "prefix name ?s")
      case no: False
      with name show ?thesis
        by (simp add: cookie_value_here_def pattern_here_literal plain_name_def)
    next
      case True
      then obtain r where r: "?s = name @ r" by (auto simp: prefix_def)
      have "r = [] \<or> hd r \<noteq> ch CHR ''=''"
      proof (rule ccontr)
        assume "\<not> (r = [] \<or> hd r \<noteq> ch CHR ''='')"
        then obtain r' where "r = ch CHR ''='' # r'" by (cases r) auto
        with r have "m @ ch CHR ''='' # w @ t = name @ ch CHR ''='' # r'" by simp
        then have "takeWhile (\<lambda>c. c \<noteq> ch CHR ''='') (m @ ch CHR ''='' # w @ t)
                    = takeWhile (\<lambda>c. c \<noteq> ch CHR ''='') (name @ ch CHR ''='' # r')"
          by (rule arg_cong)
        moreover have "takeWhile (\<lambda>c. c \<noteq> ch CHR ''='') (xs @ ch CHR ''='' # ys) = xs"
          if "ch CHR ''='' \<notin> set xs" for xs ys :: jsstring
          using that by (induction xs) auto
        ultimately have "m = name" using m no_eq by simp
        with False show False by simp
      qed
      moreover from r have "drop (length name) ?s = r" by simp
      ultimately show ?thesis
        using name True
        by (cases r) (simp_all add: cookie_value_here_def pattern_here_literal plain_name_def)
    qed
    with False show ?thesis by simp
  qed
qed


lemma white_space_not_alnum: "white_space c \<Longrightarrow> \<not> alnum c"
  using alnum_literal by blast

lemma after_spaces_name:
  assumes "plain_name name" and "s = [] \<or> \<not> white_space (hd s)"
  shows "after_spaces name s = cookie_value_here name s"
  using assms by (cases s) auto

lemma cookie_capture_jar:
  assumes "plain_name name" and "cookies_ok jar"
  shows "cookie_capture name (cookie_string jar) = cookie_value jar name"
  using assms(2)
proof (induction jar)
  case Nil
  from assms(1) have "pattern_here name [] = None"
    by (cases name) (simp_all add: plain_name_def)
  then show ?case
    by (simp add: cookie_capture_def cookie_value_def cookie_value_here_def)
next
  case (Cons c rest)
  obtain m w where c: "c = (m, w)" by (cases c)
  from Cons.prems c have m: "m \<noteq> []" "ch CHR ''='' \<notin> set m" "ch CHR '';'' \<notin> set m"
    "\<not> white_space (hd m)"
    and w: "ch CHR '';'' \<notin> set w"
    and fresh: "m \<notin> fst ` set rest"
    and rest: "cookies_ok rest"
    by (cases m; auto simp: cookies_ok_def list_all_iff cookie_safe_def)+
  let ?t = "if rest = [] then [] else ch CHR '';'' # ch CHR '' '' # cookie_string rest"
  let ?s = "m @ ch CHR ''='' # w @ ?t"
  have s: "cookie_string (c # rest) = ?s"
    unfolding c by (rule cookie_string_Cons)
  have here: "cookie_value_here name ?s = (if m = name \<and> w \<noteq> [] then Some w else None)"
    by (rule cookie_value_here_pair [OF assms(1) m(2) w]) simp
  have start: "after_spaces name ?s = cookie_value_here name ?s"
    using m by (intro after_spaces_name [OF assms(1)]) (cases m, simp_all)
  have eq: "ch CHR ''='' \<noteq> ch CHR '';''" "ch CHR '' '' \<noteq> ch CHR '';''"
    "white_space (ch CHR '' '')"
    by (simp_all add: ch_def white_space_def)
  have scan: "cookie_scan name ?s = (if rest = [] then None else cookie_capture name (cookie_string rest))"
  proof -
    have "ch CHR '';'' \<notin> set (m @ ch CHR ''='' # w)" using m w eq by simp
    from cookie_scan_skip [OF this, of name ?t]
    have "cookie_scan name ?s = cookie_scan name ?t" by simp
    moreover have "cookie_scan name [] = None" by simp
    moreover have "cookie_scan name (ch CHR '';'' # ch CHR '' '' # cookie_string rest)
                     = cookie_capture name (cookie_string rest)"
      using eq plain_name_head [OF assms(1) white_space_not_alnum [OF eq(3)]]
      by (simp add: after_semicolon_def cookie_capture_def split: option.splits)
    ultimately show ?thesis by simp
  qed
  show ?case
  proof (cases "m = name \<and> w \<noteq> []")
    case True
    with here start s c show ?thesis
      by (simp add: cookie_capture_def cookie_value_def)
  next
    case False
    with here start s scan
    have "cookie_capture name (cookie_string (c # rest))
            = (if rest = [] then None else cookie_capture name (cookie_string rest))"
      by (simp add: cookie_capture_def)
    also have "\<dots> = cookie_value rest name"
      using Cons.IH [OF rest] by (auto simp: cookie_value_def)
    also have "\<dots> = cookie_value (c # rest) name"
    proof (cases "m = name")
      case True
      with False have "w = []" by simp
      moreover from True fresh have "map_of rest name = None"
        by (simp add: map_of_eq_None_iff)
      ultimately show ?thesis using True c by (simp add: cookie_value_def)
    next
      case no: False
      with c show ?thesis by (simp add: cookie_value_def)
    qed
    finally show ?thesis .
  qed
qed

subsection \<open>Writing and reading a cookie\<close>

lemma encodeURIComponent_unreserved:
  "list_all uri_unreserved s \<Longrightarrow> encodeURIComponent s = Inr s"
  by (induction s rule: encodeURIComponent.induct) (simp_all add: prepend_def)

lemma plain_name_encoded: "plain_name name \<Longrightarrow> encodeURIComponent name = Inr name"
  by (intro encodeURIComponent_unreserved)
    (auto simp: plain_name_def list_all_iff uri_unreserved_def)

lemma encodeURIComponent_empty:
  assumes "encodeURIComponent s = Inr t"
  shows "(t = []) = (s = [])"
  using decodeURIComponent_encodeURIComponent [OF assms] assms by (cases s) auto

lemma jar_store_names: "fst ` set (jar_store n v jar) = insert n (fst ` set jar)"
proof (induction jar)
  case Nil
  show ?case by simp
next
  case (Cons c jar)
  obtain m w where "c = (m, w)" by (cases c)
  with Cons show ?case by (cases "m = n") (simp_all add: insert_commute)
qed

lemma cookies_ok_jar_store:
  assumes "cookies_ok jar" and "n \<noteq> []" and "list_all cookie_safe n"
    and "ch CHR '';'' \<notin> set v"
  shows "cookies_ok (jar_store n v jar)"
  using assms(1)
proof (induction jar)
  case Nil
  with assms show ?case by (auto simp: cookies_ok_def list_all_iff)
next
  case (Cons c jar)
  obtain m w where c: "c = (m, w)" by (cases c)
  from Cons.prems have rest: "cookies_ok jar" by (simp add: cookies_ok_def)
  show ?case
  proof (cases "m = n")
    case True
    with Cons.prems assms c show ?thesis by (auto simp: cookies_ok_def list_all_iff)
  next
    case False
    with Cons.prems Cons.IH [OF rest] c show ?thesis
      using jar_store_names [of n v jar] by (auto simp: cookies_ok_def)
  qed
qed

lemma getSetting_cookie_plain:
  assumes "get_prop params (js ''storeType'') = JStr (js ''cookie'')"
    and "plain_name name" and "cookies_ok (cookieJar b)"
  shows "getSetting params b name =
           (case cookie_value (cookieJar b) name of
              None \<Rightarrow> Inr JNull
            | Some v \<Rightarrow>
                (case decodeURIComponent v of
                   Inl e \<Rightarrow> Inl e
                 | Inr s \<Rightarrow> Inr (setting_value (JStr s))))"
  using assms cookie_capture_jar [OF assms(2,3)] plain_name_simple [OF assms(2)]
  by (simp add: getSetting_def stored_setting_def cookie_match_def setting_value_def
      split: option.splits sum.splits)

lemma cookie_value_jar_store:
  "cookie_value (jar_store n v jar) k
     = (if k = n then (if v = [] then None else Some v) else cookie_value jar k)"
  by (simp add: cookie_value_def map_of_jar_store)

lemma setSetting_cookie_jar:
  assumes "get_prop params (js ''storeType'') = JStr (js ''cookie'')"
    and "setSetting params name val b = Done b'" and "cookies_ok (cookieJar b)"
  shows "\<exists>n v. encodeURIComponent name = Inr n \<and> encodeURIComponent (to_string val) = Inr v
           \<and> cookies_ok (cookieJar b')
           \<and> (\<forall>k. cookie_value (cookieJar b') k
                  = (if k = n \<and> n \<noteq> [] then (if v = [] then None else Some v)
                     else cookie_value (cookieJar b) k))"
proof -
  from setSetting_cookie [OF assms(1,2)] obtain n v where
    n: "encodeURIComponent name = Inr n" and v: "encodeURIComponent (to_string val) = Inr v"
    and b': "b' = b\<lparr>cookieJar := (if n = [] then cookieJar b else jar_store n v (cookieJar b))\<rparr>"
    by blast
  have "cookies_ok (jar_store n v (cookieJar b))" if "n \<noteq> []"
    using encodeURIComponent_safe [OF n] encodeURIComponent_safe [OF v] that
    by (intro cookies_ok_jar_store [OF assms(3)]) (auto simp: list_all_iff cookie_safe_def)
  with assms(3) b' have "cookies_ok (cookieJar b')" by simp
  with n v b' show ?thesis by (auto simp: cookie_value_jar_store)
qed

lemma getSetting_after_setSetting_cookie:
  assumes cookie: "get_prop params (js ''storeType'') = JStr (js ''cookie'')"
    and name: "plain_name name" and jar: "cookies_ok (cookieJar b)"
    and run: "setSetting params name val b = Done b'" and nonempty: "to_string val \<noteq> []"
  shows "getSetting params b' name = Inr (setting_value (JStr (to_string val)))"
proof -
  from setSetting_cookie_jar [OF cookie run jar] plain_name_encoded [OF name]
  obtain v where v: "encodeURIComponent (to_string val) = Inr v"
    and ok: "cookies_ok (cookieJar b')"
    and stored: "cookie_value (cookieJar b') name = (if name \<noteq> [] then (if v = [] then None else Some v)
                     else cookie_value (cookieJar b) name)"
    by auto
  from name have "name \<noteq> []" by (simp add: plain_name_def)
  moreover from encodeURIComponent_empty [OF v] nonempty have "v \<noteq> []" by simp
  ultimately have "cookie_value (cookieJar b') name = Some v" using stored by simp
  with getSetting_cookie_plain [OF cookie name ok] decodeURIComponent_encodeURIComponent [OF v]
  show ?thesis by simp
qed

lemma getSetting_other_name_cookie:
  assumes cookie: "get_prop params (js ''storeType'') = JStr (js ''cookie'')"
    and name': "plain_name name'" and other: "name' \<noteq> name"
    and jar: "cookies_ok (cookieJar b)"
  shows "getSetting params (state_of (setSetting params name val b)) name'
           = getSetting params b name'"
proof (cases "setSetting params name val b")
  case (Thrown e b')
  with setSetting_Thrown_state [OF Thrown] show ?thesis by (simp add: state_of_def)
next
  case (Done b')
  from setSetting_cookie_jar [OF cookie Done jar] obtain n v where
    n: "encodeURIComponent name = Inr n"
    and ok: "cookies_ok (cookieJar b')"
    and stored: "\<And>k. cookie_value (cookieJar b') k
                  = (if k = n \<and> n \<noteq> [] then (if v = [] then None else Some v)
                     else cookie_value (cookieJar b) k)"
    by blast
  have "name' \<noteq> n"
  proof
    assume "name' = n"
    moreover from name' alnum_safe have "ch CHR ''%'' \<notin> set name'"
      by (auto simp: plain_name_def list_all_iff)
    ultimately have "n = name" using encodeURIComponent_plain [OF n] by simp
    with \<open>name' = n\<close> other show False by simp
  qed
  with stored [of name'] have "cookie_value (cookieJar b') name' = cookie_value (cookieJar b) name'"
    by simp
  with getSetting_cookie_plain [OF cookie name' ok] getSetting_cookie_plain [OF cookie name' jar] Done
  show ?thesis by (simp add: state_of_def)
qed

text \<open>
  Claim C3, as amended. In the mode \<open>local_storage\<close>, with the key prefix
  \<open>kiwixjs-\<close> that the script gives \<open>params.keyPrefix\<close>, \<open>setSetting\<close>
  writes the one entry of \<open>localStorage\<close> under \<open>kiwixjs-\<close> followed by the
  name, and \<open>getSetting\<close> returns what stands under that same key. In the mode
  \<open>cookie\<close> there is no prefix: \<open>setSetting\<close> sets the cookie whose name is the
  URI-encoded name of the setting (and leaves local storage alone), and
  \<open>getSetting\<close> reads the cookies only; for a name of letters and digits, and cookies
  as a browser keeps them, it returns the decoded value of the cookie of that very name.
\<close>

theorem settings_keys:
  "(get_prop params (js ''storeType'') = JStr (js ''local_storage'')
      \<and> get_prop params (js ''keyPrefix'') = JStr (js ''kiwixjs-'') \<longrightarrow>
      setSetting params name val b =
        Done (b\<lparr>localStorage := (localStorage b)(js ''kiwixjs-'' @ name \<mapsto> to_string val)\<rparr>)
      \<and> getSetting params b name =
          Inr (setting_value (case localStorage b (js ''kiwixjs-'' @ name) of
                                None \<Rightarrow> JNull
                              | Some s \<Rightarrow> JStr s)))
   \<and> (get_prop params (js ''storeType'') = JStr (js ''cookie'') \<longrightarrow>
        (\<forall>b'. setSetting params name val b = Done b' \<longrightarrow>
           (\<exists>n v. encodeURIComponent name = Inr n \<and> encodeURIComponent (to_string val) = Inr v
              \<and> b' = b\<lparr>cookieJar :=
                         (if n = [] then cookieJar b else jar_store n v (cookieJar b))\<rparr>))
        \<and> (\<forall>ls. getSetting params (b\<lparr>localStorage := ls\<rparr>) name = getSetting params b name)
        \<and> (plain_name name \<and> cookies_ok (cookieJar b) \<longrightarrow>
             encodeURIComponent name = Inr name
             \<and> getSetting params b name =
                 (case cookie_value (cookieJar b) name of
                    None \<Rightarrow> Inr JNull
                  | Some v \<Rightarrow>
                      (case decodeURIComponent v of
                         Inl e \<Rightarrow> Inl e
                       | Inr s \<Rightarrow> Inr (setting_value (JStr s))))))"
  using setSetting_local_storage [of params name val b] getSetting_local_storage [of params b name]
    setSetting_cookie [of params name val b]
    getSetting_cookie_ignores_local_storage [where params = params and b = b and name = name]
    getSetting_cookie_plain [of params name b] plain_name_encoded [of name]
  by simp

section \<open>The last write wins\<close>

lemma jar_store_twice: "jar_store n v2 (jar_store n v1 jar) = jar_store n v2 jar"
  by (induction jar) auto

lemma setSetting_overwrites:
  assumes "setSetting params name v2 b = Done b2"
  shows "setSetting params name v2 (state_of (setSetting params name v1 b)) = Done b2"
proof -
  consider (cookie) "get_prop params (js ''storeType'') = JStr (js ''cookie'')"
    | (local) "get_prop params (js ''storeType'') = JStr (js ''local_storage'')"
    | (none) "get_prop params (js ''storeType'') \<noteq> JStr (js ''cookie'')"
        "get_prop params (js ''storeType'') \<noteq> JStr (js ''local_storage'')"
    by blast
  then show ?thesis
  proof cases
    case cookie
    from setSetting_cookie [OF cookie assms] obtain n e2 where
      n: "encodeURIComponent name = Inr n" and e2: "encodeURIComponent (to_string v2) = Inr e2"
      and b2: "b2 = b\<lparr>cookieJar := (if n = [] then cookieJar b else jar_store n e2 (cookieJar b))\<rparr>"
      by blast
    show ?thesis
    proof (cases "setSetting params name v1 b")
      case (Thrown e b')
      with setSetting_Thrown_state [OF Thrown] assms show ?thesis by (simp add: state_of_def)
    next
      case (Done b1)
      from setSetting_cookie [OF cookie Done] n obtain e1 where
        b1: "b1 = b\<lparr>cookieJar := (if n = [] then cookieJar b else jar_store n e1 (cookieJar b))\<rparr>"
        by auto
      obtain b3 where run: "setSetting params name v2 b1 = Done b3"
        using cookie n e2 by (auto simp: setSetting_def Let_def js_def ch_def)
      from setSetting_cookie [OF cookie run] n e2
      have "b3 = b1\<lparr>cookieJar := (if n = [] then cookieJar b1 else jar_store n e2 (cookieJar b1))\<rparr>"
        by auto
      with b1 b2 have "b3 = b2" by (simp add: jar_store_twice)
      with run Done show ?thesis by (simp add: state_of_def)
    qed
  next
    case local
    from setSetting_local_storage [OF local] assms show ?thesis
      by (simp add: state_of_def)
  next
    case none
    with assms show ?thesis by (simp add: setSetting_def state_of_def Let_def)
  qed
qed

lemma getSetting_after_setSetting_local:
  assumes "get_prop params (js ''storeType'') = JStr (js ''local_storage'')"
  shows "getSetting params (state_of (setSetting params name val b)) name
           = Inr (setting_value (JStr (to_string val)))"
  using setSetting_local_storage [OF assms, of name val b] getSetting_local_storage [OF assms]
  by (simp add: state_of_def)

lemma getSetting_other_name:
  assumes "get_prop params (js ''storeType'') \<noteq> JStr (js ''cookie'')" and "name' \<noteq> name"
  shows "getSetting params (state_of (setSetting params name val b)) name' = getSetting params b name'"
proof (cases "get_prop params (js ''storeType'') = JStr (js ''local_storage'')")
  case True
  from setSetting_local_storage [OF True, of name val b] getSetting_local_storage [OF True] assms(2)
  show ?thesis by (simp add: state_of_def)
next
  case False
  with assms(1) show ?thesis by (simp add: setSetting_def state_of_def Let_def)
qed

text \<open>
  Claim C4, as amended. For every name and all values \<open>v1\<close> and \<open>v2\<close>, in every
  mode: when \<open>setSetting(name, v2)\<close> returns normally, it leaves after
  \<open>setSetting(name, v1)\<close> the very store it leaves without that first call, so nothing
  of \<open>v1\<close> remains. \<open>getSetting(name)\<close> then returns the value of the text of
  \<open>v2\<close>: in the mode \<open>local_storage\<close> always; in the mode \<open>cookie\<close> when the
  name consists of letters and digits, the text of \<open>v2\<close> is not empty and the cookies
  of the page are as a browser keeps them. A write to one name leaves what
  \<open>getSetting\<close> returns for every other name unchanged: always in a mode other than
  \<open>cookie\<close>; in the mode \<open>cookie\<close> for every other name of letters and digits.
\<close>

theorem setSetting_last_write_wins:
  "(\<forall>b2. setSetting params name v2 b = Done b2 \<longrightarrow>
      setSetting params name v2 (state_of (setSetting params name v1 b)) = Done b2
      \<and> (get_prop params (js ''storeType'') = JStr (js ''cookie'') \<and> plain_name name
           \<and> cookies_ok (cookieJar b) \<and> to_string v2 \<noteq> [] \<longrightarrow>
           getSetting params b2 name = Inr (setting_value (JStr (to_string v2)))))
   \<and> (get_prop params (js ''storeType'') = JStr (js ''local_storage'') \<longrightarrow>
        getSetting params
          (state_of (setSetting params name v2 (state_of (setSetting params name v1 b)))) name
          = Inr (setting_value (JStr (to_string v2))))
   \<and> (name' \<noteq> name
        \<and> (get_prop params (js ''storeType'') = JStr (js ''cookie'') \<longrightarrow>
             plain_name name' \<and> cookies_ok (cookieJar b)) \<longrightarrow>
        getSetting params (state_of (setSetting params name v1 b)) name' = getSetting params b name')"
proof -
  have cookie_frame: "getSetting params (state_of (setSetting params name v1 b)) name'
                        = getSetting params b name'"
    if "name' \<noteq> name"
      and "get_prop params (js ''storeType'') = JStr (js ''cookie'') \<longrightarrow>
             plain_name name' \<and> cookies_ok (cookieJar b)"
  proof (cases "get_prop params (js ''storeType'') = JStr (js ''cookie'')")
    case True
    with that show ?thesis by (simp add: getSetting_other_name_cookie)
  next
    case False
    with that show ?thesis by (simp add: getSetting_other_name)
  qed
  from setSetting_overwrites [of params name v2 b _ v1]
    getSetting_after_setSetting_cookie [of params name b v2]
    getSetting_after_setSetting_local [of params name v2 "state_of (setSetting params name v1 b)"]
    cookie_frame
  show ?thesis by blast
qed

section \<open>Properties of the parameter sequence of init.js\<close>

lemma get_prop_set_prop:
  "get_prop (set_prop obj k v) k' = (if k' = k \<and> k \<noteq> js ''__proto__'' then v else get_prop obj k')"
  by (simp add: get_prop_def set_prop_def)

text \<open>
  Claim C8. When the sequence of \<open>init.js\<close> has run to its end (defaults, stored
  settings and the overrides of the query string applied) and the parameter
  \<open>contentInjectionMode\<close> is \<open>'jquery'\<close>, the parameter \<open>appCache\<close> is
  \<open>true\<close>, whatever the settings store and the query string held.
\<close>

theorem init_appCache_in_jquery_mode:
  assumes "init storeType b = Done (params, b')"
    and "get_prop params (js ''contentInjectionMode'') = JStr (js ''jquery'')"
  shows "get_prop params (js ''appCache'') = JBool True"
proof -
  have "\<exists>p. params = set_prop p (js ''appCache'')
               (if get_prop p (js ''contentInjectionMode'') = JStr (js ''jquery'')
                then JBool True else get_prop p (js ''appCache''))"
    using assms(1) by (auto simp: init_def split: outcome.splits)
  then obtain p where
    params: "params = set_prop p (js ''appCache'')
               (if get_prop p (js ''contentInjectionMode'') = JStr (js ''jquery'')
                then JBool True else get_prop p (js ''appCache''))"
    by blast
  have ne: "js ''contentInjectionMode'' \<noteq> js ''appCache''" "js ''appCache'' \<noteq> js ''__proto__''"
    by (simp_all add: js_def ch_def)
  from assms(2) have "get_prop p (js ''contentInjectionMode'') = JStr (js ''jquery'')"
    unfolding params using ne by (simp add: get_prop_set_prop)
  then show ?thesis unfolding params using ne by (simp add: get_prop_set_prop)
qed

section \<open>Properties of overrideParams\<close>

lemma override_param_cases:
  "(decoded_pair m = [] \<and> state_of (override_param m (p, b)) = (p, b))
   \<or> (\<exists>key val. decoded_pair m = [(key, val)] \<and> key \<noteq> js ''title''
        \<and> ((\<exists>b'. setSetting p key val b = Done b'
                  \<and> override_param m (p, b) = Done (set_prop p key val, b'))
           \<or> (\<exists>e. setSetting p key val b = Thrown e b
                  \<and> override_param m (p, b) = Thrown e (p, b))))"
proof (cases "decoded_pair m")
  case Nil
  then have "state_of (override_param m (p, b)) = (p, b)"
    by (auto simp: decoded_pair_def override_param_def state_of_def Let_def
        split: sum.splits if_splits)
  with Nil show ?thesis by simp
next
  case (Cons kv rest)
  then obtain paramKey paramVal where d: "fst m \<noteq> []" "snd m \<noteq> []"
    "decodeURIComponent (fst m) = Inr paramKey" "decodeURIComponent (snd m) = Inr paramVal"
    "paramKey \<noteq> js ''title''" and kv: "decoded_pair m = [(paramKey, param_value paramVal)]"
    by (auto simp: decoded_pair_def split: sum.splits if_splits)
  show ?thesis
  proof (cases "setSetting p paramKey (param_value paramVal) b")
    case (Done b')
    with d have "override_param m (p, b) = Done (set_prop p paramKey (param_value paramVal), b')"
      by (simp add: override_param_def Let_def)
    with Done kv d(5) show ?thesis by blast
  next
    case (Thrown e b')
    then have same: "b' = b" by (rule setSetting_Thrown_state)
    with Thrown d have "override_param m (p, b) = Thrown e (p, b)"
      by (simp add: override_param_def Let_def)
    with Thrown same kv d(5) show ?thesis by blast
  qed
qed

lemma title_no_percent: "ch CHR ''%'' \<notin> set (js ''title'')"
  by (simp add: js_def ch_def)

lemma setSetting_title_frame:
  assumes "get_prop p (js ''keyPrefix'') = JStr (js ''kiwixjs-'')" and "key \<noteq> js ''title''"
  shows "localStorage (state_of (setSetting p key val b)) (js ''kiwixjs-title'')
           = localStorage b (js ''kiwixjs-title'')
         \<and> map_of (cookieJar (state_of (setSetting p key val b))) (js ''title'')
           = map_of (cookieJar b) (js ''title'')"
proof -
  have split: "js ''kiwixjs-title'' = js ''kiwixjs-'' @ js ''title''" by (simp add: js_def)
  consider (cookie) "get_prop p (js ''storeType'') = JStr (js ''cookie'')"
    | (local) "get_prop p (js ''storeType'') = JStr (js ''local_storage'')"
    | (none) "get_prop p (js ''storeType'') \<noteq> JStr (js ''cookie'')"
        "get_prop p (js ''storeType'') \<noteq> JStr (js ''local_storage'')"
    by blast
  then show ?thesis
  proof cases
    case cookie
    show ?thesis
    proof (cases "setSetting p key val b")
      case (Thrown e b')
      then show ?thesis using setSetting_Thrown_state [OF Thrown] by (simp add: state_of_def)
    next
      case (Done b')
      from setSetting_cookie [OF cookie Done] obtain n v where
        n: "encodeURIComponent key = Inr n"
        and b': "b' = b\<lparr>cookieJar := (if n = [] then cookieJar b else jar_store n v (cookieJar b))\<rparr>"
        by blast
      have "n \<noteq> js ''title''"
        using encodeURIComponent_plain [OF n] title_no_percent assms(2) by auto
      with Done b' show ?thesis by (simp add: state_of_def map_of_jar_store)
    qed
  next
    case local
    show ?thesis
      using setSetting_local_storage [OF local, of key val b] assms
      by (simp add: state_of_def split)
  next
    case none
    then show ?thesis by (simp add: setSetting_def state_of_def Let_def)
  qed
qed

lemma override_param_title:
  "fst (state_of (override_param m (p, b))) (js ''title'') = p (js ''title'')"
  using override_param_cases [of m p b]
  by (elim disjE exE conjE) (simp_all add: state_of_def set_prop_def)

lemma override_loop_title:
  "fst (state_of (override_loop ms st)) (js ''title'') = fst st (js ''title'')"
proof (induction ms arbitrary: st)
  case Nil
  show ?case by (simp add: state_of_def)
next
  case (Cons m ms)
  obtain p b where st: "st = (p, b)" by (cases st)
  show ?case
  proof (cases "override_param m st")
    case (Done st')
    with Cons [of st'] override_param_title [of m p b] st show ?thesis
      by (simp add: state_of_def)
  next
    case (Thrown e st')
    with override_param_title [of m p b] st show ?thesis by (simp add: state_of_def)
  qed
qed


lemma keyPrefix_kept:
  "key \<noteq> js ''keyPrefix'' \<Longrightarrow> get_prop (set_prop p key val) (js ''keyPrefix'') = get_prop p (js ''keyPrefix'')"
  by (simp add: get_prop_set_prop)

lemma override_param_persisted_title:
  assumes pre: "get_prop p (js ''keyPrefix'') = JStr (js ''kiwixjs-'')"
    and nk: "js ''keyPrefix'' \<notin> fst ` set (decoded_pair m)"
  shows "get_prop (fst (state_of (override_param m (p, b)))) (js ''keyPrefix'') = JStr (js ''kiwixjs-'')
         \<and> localStorage (snd (state_of (override_param m (p, b)))) (js ''kiwixjs-title'')
             = localStorage b (js ''kiwixjs-title'')
         \<and> map_of (cookieJar (snd (state_of (override_param m (p, b))))) (js ''title'')
             = map_of (cookieJar b) (js ''title'')"
  using override_param_cases [of m p b]
proof (elim disjE exE conjE)
  assume "state_of (override_param m (p, b)) = (p, b)"
  with pre show ?thesis by simp
next
  fix key val b'
  assume d: "decoded_pair m = [(key, val)]" and k: "key \<noteq> js ''title''"
    and s: "setSetting p key val b = Done b'"
    and o: "override_param m (p, b) = Done (set_prop p key val, b')"
  from nk d have "key \<noteq> js ''keyPrefix''" by auto
  with pre o setSetting_title_frame [OF pre k, of val b] s show ?thesis
    by (simp add: state_of_def keyPrefix_kept)
next
  fix key val e
  assume "override_param m (p, b) = Thrown e (p, b)"
  with pre show ?thesis by (simp add: state_of_def)
qed

lemma decoded_pairs_Cons: "decoded_pairs (m # ms) = decoded_pair m @ decoded_pairs ms"
  by (simp add: decoded_pairs_def)

lemma state_of_override_loop_Cons:
  "state_of (override_loop (m # ms) st) =
     (case override_param m st of
        Done st' \<Rightarrow> state_of (override_loop ms st')
      | Thrown e st' \<Rightarrow> st')"
  by (simp add: state_of_def split: outcome.splits)

lemma override_loop_persisted_title:
  assumes "get_prop (fst st) (js ''keyPrefix'') = JStr (js ''kiwixjs-'')"
    and "js ''keyPrefix'' \<notin> fst ` set (decoded_pairs ms)"
  shows "localStorage (snd (state_of (override_loop ms st))) (js ''kiwixjs-title'')
             = localStorage (snd st) (js ''kiwixjs-title'')
         \<and> map_of (cookieJar (snd (state_of (override_loop ms st)))) (js ''title'')
             = map_of (cookieJar (snd st)) (js ''title'')"
  using assms
proof (induction ms arbitrary: st)
  case Nil
  show ?case by (simp add: state_of_def)
next
  case (Cons m ms)
  obtain p b where st: "st = (p, b)" by (cases st)
  from Cons.prems(2) have nk: "js ''keyPrefix'' \<notin> fst ` set (decoded_pair m)"
    and nks: "js ''keyPrefix'' \<notin> fst ` set (decoded_pairs ms)"
    by (auto simp: decoded_pairs_Cons)
  from Cons.prems(1) st have pre: "get_prop p (js ''keyPrefix'') = JStr (js ''kiwixjs-'')" by simp
  note step = override_param_persisted_title [OF pre nk, of b]
  show ?case
  proof (cases "override_param m (p, b)")
    case (Thrown e st')
    with step st show ?thesis by (simp add: state_of_override_loop_Cons state_of_def)
  next
    case (Done st')
    with step have "get_prop (fst st') (js ''keyPrefix'') = JStr (js ''kiwixjs-'')"
      and same: "localStorage (snd st') (js ''kiwixjs-title'') = localStorage b (js ''kiwixjs-title'')"
        "map_of (cookieJar (snd st')) (js ''title'') = map_of (cookieJar b) (js ''title'')"
      by (simp_all add: state_of_def)
    from Cons.IH [OF this(1) nks] same Done st show ?thesis
      by (simp add: state_of_override_loop_Cons)
  qed
qed

lemma override_loop_Done_params:
  "override_loop ms (p, b) = Done (p', b') \<Longrightarrow>
     p' = fold assign_pair (decoded_pairs ms) p"
proof (induction ms arbitrary: p b)
  case Nil
  then show ?case by (simp add: decoded_pairs_def)
next
  case (Cons m ms)
  from Cons.prems obtain q c where step: "override_param m (p, b) = Done (q, c)"
    and rest: "override_loop ms (q, c) = Done (p', b')"
    by (auto split: outcome.splits)
  from override_param_cases [of m p b] step
  have "q = fold assign_pair (decoded_pair m) p"
    by (elim disjE exE conjE) (simp_all add: state_of_def assign_pair_def)
  with Cons.IH [OF rest] show ?case by (simp add: decoded_pairs_Cons)
qed

lemma fold_set_prop_lookup:
  "K \<noteq> js ''__proto__'' \<Longrightarrow>
   get_prop (fold assign_pair ps p) K
     = (case map_of (rev ps) K of None \<Rightarrow> get_prop p K | Some val \<Rightarrow> val)"
proof (induction ps arbitrary: p)
  case Nil
  show ?case by simp
next
  case (Cons kv ps)
  show ?case
    using Cons.IH [OF Cons.prems, of "assign_pair kv p"] Cons.prems
    by (cases kv) (auto simp: assign_pair_def get_prop_set_prop map_add_def split: option.splits)
qed

lemma override_loop_Done_storage:
  assumes "override_loop ms (p, b) = Done (p', b')"
    and "get_prop p (js ''storeType'') = JStr (js ''local_storage'')"
    and "get_prop p (js ''keyPrefix'') = JStr (js ''kiwixjs-'')"
    and "js ''storeType'' \<notin> fst ` set (decoded_pairs ms)"
    and "js ''keyPrefix'' \<notin> fst ` set (decoded_pairs ms)"
  shows "localStorage b' = fold store_pair
                             (decoded_pairs ms) (localStorage b)"
  using assms
proof (induction ms arbitrary: p b)
  case Nil
  then show ?case by (simp add: decoded_pairs_def)
next
  case (Cons m ms)
  from Cons.prems(1) obtain q c where step: "override_param m (p, b) = Done (q, c)"
    and rest: "override_loop ms (q, c) = Done (p', b')"
    by (auto split: outcome.splits)
  from Cons.prems(4,5) have here: "js ''storeType'' \<notin> fst ` set (decoded_pair m)"
      "js ''keyPrefix'' \<notin> fst ` set (decoded_pair m)"
    and later: "js ''storeType'' \<notin> fst ` set (decoded_pairs ms)"
      "js ''keyPrefix'' \<notin> fst ` set (decoded_pairs ms)"
    by (auto simp: decoded_pairs_Cons)
  from override_param_cases [of m p b] step
  have "get_prop q (js ''storeType'') = JStr (js ''local_storage'')
        \<and> get_prop q (js ''keyPrefix'') = JStr (js ''kiwixjs-'')
        \<and> localStorage c = fold store_pair
                               (decoded_pair m) (localStorage b)"
  proof (elim disjE exE conjE)
    assume "decoded_pair m = []" "state_of (override_param m (p, b)) = (p, b)"
    with step Cons.prems(2,3) show ?thesis by (simp add: state_of_def)
  next
    fix key val b''
    assume d: "decoded_pair m = [(key, val)]"
      and s: "setSetting p key val b = Done b''"
      and o: "override_param m (p, b) = Done (set_prop p key val, b'')"
    from here d have "key \<noteq> js ''storeType''" "key \<noteq> js ''keyPrefix''" by auto
    with step o s d Cons.prems(2,3) setSetting_local_storage [OF Cons.prems(2), of key val b]
    show ?thesis by (auto simp: get_prop_set_prop store_pair_def)
  next
    fix key val e
    assume "override_param m (p, b) = Thrown e (p, b)"
    with step show ?thesis by simp
  qed
  with Cons.IH [OF rest _ _ later] show ?case by (simp add: decoded_pairs_Cons)
qed

lemma fold_storage_lookup:
  "fold store_pair ps ls (js ''kiwixjs-'' @ K)
     = (case map_of (rev ps) K of
          None \<Rightarrow> ls (js ''kiwixjs-'' @ K)
        | Some val \<Rightarrow> Some (to_string val))"
proof (induction ps arbitrary: ls)
  case Nil
  show ?case by simp
next
  case (Cons kv ps)
  obtain k v where kv: "kv = (k, v)" by (cases kv)
  have here: "store_pair kv ls (js ''kiwixjs-'' @ K)
                = (if K = k then Some (to_string v) else ls (js ''kiwixjs-'' @ K))"
    by (simp add: store_pair_def kv)
  show ?case
    using Cons.IH [of "store_pair kv ls"] here
    by (auto simp: kv map_add_def split: option.splits)
qed

lemma send_launch_message_frame:
  "fst (send_launch_message st) = fst st
   \<and> localStorage (snd (send_launch_message st)) = localStorage (snd st)
   \<and> cookieJar (snd (send_launch_message st)) = cookieJar (snd st)"
  by (simp add: send_launch_message_def)

lemma state_of_overrideParams:
  "fst (state_of (overrideParams st)) = fst (state_of (override_loop (url_params (locationSearch (snd st))) st))
   \<and> localStorage (snd (state_of (overrideParams st)))
       = localStorage (snd (state_of (override_loop (url_params (locationSearch (snd st))) st)))
   \<and> cookieJar (snd (state_of (overrideParams st)))
       = cookieJar (snd (state_of (override_loop (url_params (locationSearch (snd st))) st)))"
  by (simp add: overrideParams_def state_of_def send_launch_message_frame split: outcome.splits)

lemma overrideParams_Done:
  "overrideParams (p, b) = Done (p', b') \<Longrightarrow>
     \<exists>b''. override_loop (url_params (locationSearch b)) (p, b) = Done (p', b'')
       \<and> localStorage b' = localStorage b'' \<and> cookieJar b' = cookieJar b''"
proof -
  assume run: "overrideParams (p, b) = Done (p', b')"
  then obtain st'' where loop: "override_loop (url_params (locationSearch b)) (p, b) = Done st''"
    and msg: "send_launch_message st'' = (p', b')"
    by (auto simp: overrideParams_def split: outcome.splits)
  from msg send_launch_message_frame [of st'']
  have "fst st'' = p'" "localStorage (snd st'') = localStorage b'"
    "cookieJar (snd st'') = cookieJar b'"
    by simp_all
  with loop show ?thesis by (cases st'') auto
qed

lemma encodeURIComponent_inj:
  assumes "encodeURIComponent k = Inr n" and "encodeURIComponent K = Inr n"
  shows "k = K"
  using decodeURIComponent_encodeURIComponent [OF assms(1)]
    decodeURIComponent_encodeURIComponent [OF assms(2)] by simp

lemma override_loop_Done_cookies:
  assumes "override_loop ms (p, b) = Done (p', b')"
    and "get_prop p (js ''storeType'') = JStr (js ''cookie'')"
    and "js ''storeType'' \<notin> fst ` set (decoded_pairs ms)"
  shows "cookieJar b' = fold cookie_pair (decoded_pairs ms) (cookieJar b)
         \<and> (\<forall>kv \<in> set (decoded_pairs ms). \<exists>v. encodeURIComponent (to_string (snd kv)) = Inr v)"
  using assms
proof (induction ms arbitrary: p b)
  case Nil
  then show ?case by (simp add: decoded_pairs_def)
next
  case (Cons m ms)
  from Cons.prems(1) obtain q c where step: "override_param m (p, b) = Done (q, c)"
    and rest: "override_loop ms (q, c) = Done (p', b')"
    by (auto split: outcome.splits)
  from Cons.prems(3) have here: "js ''storeType'' \<notin> fst ` set (decoded_pair m)"
    and later: "js ''storeType'' \<notin> fst ` set (decoded_pairs ms)"
    by (auto simp: decoded_pairs_Cons)
  from override_param_cases [of m p b] step
  have "get_prop q (js ''storeType'') = JStr (js ''cookie'')
        \<and> cookieJar c = fold cookie_pair (decoded_pair m) (cookieJar b)
        \<and> (\<forall>kv \<in> set (decoded_pair m). \<exists>v. encodeURIComponent (to_string (snd kv)) = Inr v)"
  proof (elim disjE exE conjE)
    assume "decoded_pair m = []" "state_of (override_param m (p, b)) = (p, b)"
    with step Cons.prems(2) show ?thesis by (simp add: state_of_def)
  next
    fix key val b''
    assume d: "decoded_pair m = [(key, val)]"
      and s: "setSetting p key val b = Done b''"
      and o: "override_param m (p, b) = Done (set_prop p key val, b'')"
    from here d have "key \<noteq> js ''storeType''" by auto
    moreover from setSetting_cookie [OF Cons.prems(2) s] obtain n v where
      "encodeURIComponent key = Inr n" "encodeURIComponent (to_string val) = Inr v"
      "b'' = b\<lparr>cookieJar := (if n = [] then cookieJar b else jar_store n v (cookieJar b))\<rparr>"
      by blast
    ultimately show ?thesis
      using step o d Cons.prems(2) by (auto simp: get_prop_set_prop cookie_pair_def)
  next
    fix key val e
    assume "override_param m (p, b) = Thrown e (p, b)"
    with step show ?thesis by simp
  qed
  with Cons.IH [OF rest _ later] show ?case by (auto simp: decoded_pairs_Cons)
qed

lemma cookie_pair_lookup:
  assumes "encodeURIComponent K = Inr n" and "n \<noteq> []"
    and "encodeURIComponent (to_string (snd kv)) = Inr v"
  shows "map_of (cookie_pair kv jar) n = (if fst kv = K then Some v else map_of jar n)"
proof (cases "encodeURIComponent (fst kv)")
  case (Inl e)
  with assms(1) have "fst kv \<noteq> K" by auto
  with Inl show ?thesis by (simp add: cookie_pair_def)
next
  case (Inr m)
  show ?thesis
  proof (cases "fst kv = K")
    case True
    with Inr assms show ?thesis by (simp add: cookie_pair_def map_of_jar_store)
  next
    case False
    with encodeURIComponent_inj [OF Inr, of K] assms(1) have "m \<noteq> n" by auto
    with Inr assms(3) False show ?thesis by (simp add: cookie_pair_def map_of_jar_store)
  qed
qed

lemma fold_cookie_lookup:
  assumes "encodeURIComponent K = Inr n" and "n \<noteq> []"
    and "\<forall>kv \<in> set ps. \<exists>v. encodeURIComponent (to_string (snd kv)) = Inr v"
  shows "case map_of (rev ps) K of
           None \<Rightarrow> map_of (fold cookie_pair ps jar) n = map_of jar n
         | Some val \<Rightarrow>
             (\<exists>v. encodeURIComponent (to_string val) = Inr v
                \<and> map_of (fold cookie_pair ps jar) n = Some v)"
  using assms(3)
proof (induction ps arbitrary: jar)
  case Nil
  show ?case by simp
next
  case (Cons kv ps)
  obtain k val where kv: "kv = (k, val)" by (cases kv)
  from Cons.prems kv obtain v where v: "encodeURIComponent (to_string val) = Inr v" by auto
  from Cons.prems have rest: "\<forall>kv \<in> set ps. \<exists>v. encodeURIComponent (to_string (snd kv)) = Inr v"
    by simp
  have here: "map_of (cookie_pair kv jar) n = (if k = K then Some v else map_of jar n)"
    using cookie_pair_lookup [OF assms(1,2), of kv v jar] v kv by simp
  from Cons.IH [OF rest, of "cookie_pair kv jar"] here v show ?case
    by (auto simp: kv map_add_def split: option.splits)
qed

lemma title_not_decoded: "js ''title'' \<notin> fst ` set (decoded_pairs ms)"
  by (auto simp: decoded_pairs_def decoded_pair_def split: sum.splits if_splits)

text \<open>
  Claim C9, as amended. For every query string and every state, the override loop makes
  no assignment for the key \<open>title\<close>, and \<open>params['title']\<close> is after
  \<open>overrideParams\<close> what it was before, also when the function is left by an
  exception. The persisted \<open>title\<close> (the entry \<open>kiwixjs-title\<close> of local storage
  and the cookie \<open>title\<close>) is unchanged as well whenever \<open>params.keyPrefix\<close> is
  \<open>kiwixjs-\<close> and no pair of the query string has the decoded key \<open>keyPrefix\<close>.
  When \<open>overrideParams\<close> returns normally, every pair that the pattern matches and
  whose decoded key is not \<open>title\<close> has been assigned to \<open>params\<close>, the last
  pair of a key deciding its value (\<open>true\<close> and \<open>false\<close> as booleans; the key
  \<open>__proto__\<close> creates no property), and has been written to the store: in the mode
  \<open>local_storage\<close>, with the prefix \<open>kiwixjs-\<close> and no pair for
  \<open>storeType\<close> or \<open>keyPrefix\<close>, to local storage under the prefix and the
  decoded key; in the mode \<open>cookie\<close>, with no pair for \<open>storeType\<close>, to the
  cookie whose name is the encoded key, with the encoded value.
\<close>

theorem overrideParams_title:
  "js ''title'' \<notin> fst ` set (decoded_pairs (url_params (locationSearch b)))
   \<and> fst (state_of (overrideParams (params, b))) (js ''title'') = params (js ''title'')
   \<and> (get_prop params (js ''keyPrefix'') = JStr (js ''kiwixjs-'')
        \<and> js ''keyPrefix'' \<notin> fst ` set (decoded_pairs (url_params (locationSearch b))) \<longrightarrow>
        localStorage (snd (state_of (overrideParams (params, b)))) (js ''kiwixjs-title'')
          = localStorage b (js ''kiwixjs-title'')
        \<and> map_of (cookieJar (snd (state_of (overrideParams (params, b))))) (js ''title'')
          = map_of (cookieJar b) (js ''title''))
   \<and> (\<forall>params' b'. overrideParams (params, b) = Done (params', b') \<longrightarrow>
        (\<forall>K. K \<noteq> js ''__proto__'' \<longrightarrow>
           get_prop params' K =
             (case map_of (rev (decoded_pairs (url_params (locationSearch b)))) K of
                None \<Rightarrow> get_prop params K
              | Some val \<Rightarrow> val))
        \<and> (get_prop params (js ''storeType'') = JStr (js ''local_storage'')
             \<and> get_prop params (js ''keyPrefix'') = JStr (js ''kiwixjs-'')
             \<and> js ''storeType'' \<notin> fst ` set (decoded_pairs (url_params (locationSearch b)))
             \<and> js ''keyPrefix'' \<notin> fst ` set (decoded_pairs (url_params (locationSearch b))) \<longrightarrow>
             (\<forall>K. localStorage b' (js ''kiwixjs-'' @ K) =
                (case map_of (rev (decoded_pairs (url_params (locationSearch b)))) K of
                   None \<Rightarrow> localStorage b (js ''kiwixjs-'' @ K)
                 | Some val \<Rightarrow> Some (to_string val))))
        \<and> (get_prop params (js ''storeType'') = JStr (js ''cookie'')
             \<and> js ''storeType'' \<notin> fst ` set (decoded_pairs (url_params (locationSearch b))) \<longrightarrow>
             (\<forall>K n. encodeURIComponent K = Inr n \<and> n \<noteq> [] \<longrightarrow>
                (case map_of (rev (decoded_pairs (url_params (locationSearch b)))) K of
                   None \<Rightarrow> map_of (cookieJar b') n = map_of (cookieJar b) n
                 | Some val \<Rightarrow>
                     (\<exists>v. encodeURIComponent (to_string val) = Inr v
                        \<and> map_of (cookieJar b') n = Some v)))))"
proof -
  let ?ms = "url_params (locationSearch b)"
  have none: "js ''title'' \<notin> fst ` set (decoded_pairs ?ms)" by (rule title_not_decoded)
  have params_title: "fst (state_of (overrideParams (params, b))) (js ''title'') = params (js ''title'')"
    using state_of_overrideParams [of "(params, b)"] override_loop_title [of ?ms "(params, b)"]
    by simp
  have persisted: "localStorage (snd (state_of (overrideParams (params, b)))) (js ''kiwixjs-title'')
          = localStorage b (js ''kiwixjs-title'')
        \<and> map_of (cookieJar (snd (state_of (overrideParams (params, b))))) (js ''title'')
          = map_of (cookieJar b) (js ''title'')"
    if "get_prop params (js ''keyPrefix'') = JStr (js ''kiwixjs-'')"
      and "js ''keyPrefix'' \<notin> fst ` set (decoded_pairs ?ms)"
    using state_of_overrideParams [of "(params, b)"]
      override_loop_persisted_title [of "(params, b)" ?ms] that
    by simp
  have assigned: "get_prop params' K =
             (case map_of (rev (decoded_pairs ?ms)) K of
                None \<Rightarrow> get_prop params K
              | Some val \<Rightarrow> val)"
    if "overrideParams (params, b) = Done (params', b')" and "K \<noteq> js ''__proto__''"
    for params' b' K
  proof -
    from overrideParams_Done [OF that(1)] obtain b'' where
      "override_loop ?ms (params, b) = Done (params', b'')"
      by blast
    from override_loop_Done_params [OF this] fold_set_prop_lookup [OF that(2)]
    show ?thesis by simp
  qed
  have stored: "localStorage b' (js ''kiwixjs-'' @ K) =
                (case map_of (rev (decoded_pairs ?ms)) K of
                   None \<Rightarrow> localStorage b (js ''kiwixjs-'' @ K)
                 | Some val \<Rightarrow> Some (to_string val))"
    if "overrideParams (params, b) = Done (params', b')"
      and "get_prop params (js ''storeType'') = JStr (js ''local_storage'')"
      and "get_prop params (js ''keyPrefix'') = JStr (js ''kiwixjs-'')"
      and "js ''storeType'' \<notin> fst ` set (decoded_pairs ?ms)"
      and "js ''keyPrefix'' \<notin> fst ` set (decoded_pairs ?ms)"
    for params' b' K
  proof -
    from overrideParams_Done [OF that(1)] obtain b'' where
      loop: "override_loop ?ms (params, b) = Done (params', b'')"
      and same: "localStorage b' = localStorage b''"
      by blast
    from override_loop_Done_storage [OF loop that(2-5)] same fold_storage_lookup
    show ?thesis by simp
  qed
  have cookies: "case map_of (rev (decoded_pairs ?ms)) K of
                   None \<Rightarrow> map_of (cookieJar b') n = map_of (cookieJar b) n
                 | Some val \<Rightarrow>
                     (\<exists>v. encodeURIComponent (to_string val) = Inr v
                        \<and> map_of (cookieJar b') n = Some v)"
    if "overrideParams (params, b) = Done (params', b')"
      and "get_prop params (js ''storeType'') = JStr (js ''cookie'')"
      and "js ''storeType'' \<notin> fst ` set (decoded_pairs ?ms)"
      and "encodeURIComponent K = Inr n" and "n \<noteq> []"
    for params' b' K n
  proof -
    from overrideParams_Done [OF that(1)] obtain b'' where
      loop: "override_loop ?ms (params, b) = Done (params', b'')"
      and same: "cookieJar b' = cookieJar b''"
      by blast
    from override_loop_Done_cookies [OF loop that(2,3)]
    have jar: "cookieJar b'' = fold cookie_pair (decoded_pairs ?ms) (cookieJar b)"
      and enc: "\<forall>kv \<in> set (decoded_pairs ?ms). \<exists>v. encodeURIComponent (to_string (snd kv)) = Inr v"
      by simp_all
    show ?thesis
      unfolding same jar by (rule fold_cookie_lookup [OF that(4,5) enc])
  qed
  from none params_title persisted assigned stored cookies show ?thesis by blast
qed

section \<open>Properties of applyAppTheme\<close>

lemma and_then_Done: "and_then (Done s) f = f s"
  by (simp add: and_then_def)

lemma holds_Done: "holds_after d (Done s) Q = Q s"
  by (simp add: holds_after_def)

lemma holds_Thrown: "holds_after d (Thrown e s) Q = d"
  by (simp add: holds_after_def)

lemma holds_and_then:
  "holds_after d (and_then r k) Q = holds_after d r (\<lambda>s. holds_after d (k s) Q)"
  by (cases r) (simp_all add: holds_after_def and_then_def)

lemma holds_html_classes:
  "holds_after d (html_classes c t pg) Q
     = (if token_error t = None then Q (pg\<lparr>htmlClassList := c t (htmlClassList pg)\<rparr>) else d)"
  by (auto simp: holds_after_def html_classes_def split: option.splits)

lemma holds_footer_classes:
  "holds_after d (footer_classes c t pg) Q
     = (case footer pg of
          None \<Rightarrow> d
        | Some cs \<Rightarrow> if token_error t = None then Q (pg\<lparr>footer := Some (c t cs)\<rparr>) else d)"
  by (auto simp: holds_after_def footer_classes_def split: option.splits)

lemma kept_update_if_present:
  "htmlClassList (update_if_present i f pg) = htmlClassList pg"
  "footer (update_if_present i f pg) = footer pg"
  "(elements (update_if_present i f pg) j = None) = (elements pg j = None)"
  by (auto simp: update_if_present_def split: option.splits)

lemma kept_update_if_present_frame:
  "articleDocument (update_if_present i f pg) = articleDocument pg"
  by (auto simp: update_if_present_def split: option.splits)

lemma kept_remove_theme_link:
  "htmlClassList (remove_theme_link pg) = htmlClassList pg"
  "footer (remove_theme_link pg) = footer pg"
  "elements (remove_theme_link pg) = elements pg"
  "frame_head (remove_theme_link pg) = frame_head pg"
  by (auto simp: remove_theme_link_def frame_head_def split: option.splits)

lemma frame_head_kept:
  "frame_head (update_if_present i f pg) = frame_head pg"
  "frame_head (pg\<lparr>elements := es\<rparr>) = frame_head pg"
  "frame_head (pg\<lparr>htmlTheme := t\<rparr>) = frame_head pg"
  by (simp_all add: frame_head_def kept_update_if_present_frame)

lemma frame_head_same: "articleDocument s = articleDocument pg \<Longrightarrow> frame_head s = frame_head pg"
  by (simp add: frame_head_def)

lemma holds_append_theme_link:
  "holds_after d (append_theme_link h pg) Q
     = (case articleDocument pg of
          None \<Rightarrow> Q pg
        | Some doc \<Rightarrow>
            (case headEnd doc of
               None \<Rightarrow> d
             | Some n \<Rightarrow>
                 Q (pg\<lparr>articleDocument :=
                        Some (doc\<lparr>themeLinks := take n (themeLinks doc) @ [Some h]
                                                 @ drop n (themeLinks doc),
                                  headEnd := Some (Suc n)\<rparr>)\<rparr>)))"
  by (auto simp: holds_after_def append_theme_link_def split: option.splits)

lemma dark_invert_parts:
  "strip_tail underscore_tail (js ''dark_invert'') = js ''dark''"
  "dropWhile (\<lambda>c. c \<noteq> ch CHR ''_'') (js ''dark_invert'') = js ''_invert''"
  "\<not> prefix (js ''auto'') (js ''dark_invert'')"
  by (simp_all add: js_def ch_def line_terminator_def)

lemma dark_invert_tokens:
  "js ''dark'' \<noteq> []" "js ''_invert'' \<noteq> []"
  "token_error (js ''dark'') = None" "token_error (js ''_invert'') = None"
  "token_error (js ''_light'') = None"
  "simple_pattern (js ''kiwixJS'' @ js ''_invert'' @ js ''.css'')"
  by (simp_all add: js_def ch_def token_error_def ascii_whitespace_def simple_pattern_def
        syntax_character_def)

lemma set_strip_tail: "set (strip_tail m s) \<subseteq> set s"
  by (induction s) auto

lemma old_token:
  assumes "\<not> list_ex ascii_whitespace s" and "set t \<subseteq> set s" and "t \<noteq> []"
  shows "token_error t = None"
  using assms by (auto simp: token_error_def list_ex_iff)

lemma class_add_mem: "t \<in> set (class_add t cs)"
  by (simp add: class_add_def)

lemma holds_seq:
  assumes "holds_after d r M" and "\<And>s. M s \<Longrightarrow> holds_after d (k s) Q"
  shows "holds_after d (and_then r k) Q"
  using assms by (cases r) (simp_all add: holds_after_def and_then_def)

lemma holds_element_classes_eq:
  "holds_after d (element_classes i c t pg) Q
     = (case elements pg i of
          None \<Rightarrow> d
        | Some e \<Rightarrow>
            if token_error t = None
            then Q (pg\<lparr>elements := (elements pg)(i \<mapsto> e\<lparr>classList := c t (classList e)\<rparr>)\<rparr>)
            else d)"
  by (auto simp: holds_after_def element_classes_def split: option.splits)

lemma holds_update_element_eq:
  "holds_after d (update_element i f pg) Q
     = (case elements pg i of
          None \<Rightarrow> d
        | Some e \<Rightarrow> Q (pg\<lparr>elements := (elements pg)(i \<mapsto> f e)\<rparr>))"
  by (auto simp: holds_after_def update_element_def split: option.splits)

lemma themed_update:
  assumes "themed pg s" and "elements s i = Some e"
  shows "themed pg (s\<lparr>elements := (elements s)(i \<mapsto> x)\<rparr>)"
proof -
  from assms(1) have "(elements s i = None) = (elements pg i = None)"
    by (simp add: themed_def)
  with assms(2) have "elements pg i \<noteq> None" by simp
  with assms(1) show ?thesis by (auto simp: themed_def)
qed

lemma applyAppTheme_holds:
  assumes "d \<or> theme_page pg"
  shows "holds_after d (applyAppTheme (js ''dark_invert'') pg) (themed pg)"
proof (cases "elements pg (js ''articleContent'')")
  case None
  with assms show ?thesis
    by (simp add: applyAppTheme_def theme_page_def holds_Thrown)
next
  case (Some iframe)
  define old where "old = (case htmlTheme pg of None \<Rightarrow> [] | Some t \<Rightarrow> t)"
  have t1: "d \<or> strip_tail underscore_tail old = [] \<or> token_error (strip_tail underscore_tail old) = None"
  proof (cases "d \<or> strip_tail underscore_tail old = []")
    case False
    with assms have "\<not> list_ex ascii_whitespace old" by (simp add: theme_page_def old_def)
    from old_token [OF this set_strip_tail] False show ?thesis by simp
  qed blast
  have t2: "d \<or> dropWhile (\<lambda>c. c \<noteq> ch CHR ''_'') old = []
              \<or> token_error (dropWhile (\<lambda>c. c \<noteq> ch CHR ''_'') old) = None"
  proof (cases "d \<or> dropWhile (\<lambda>c. c \<noteq> ch CHR ''_'') old = []")
    case False
    with assms have "\<not> list_ex ascii_whitespace old" by (simp add: theme_page_def old_def)
    from old_token [OF this subsetI [OF set_dropWhileD]] False show ?thesis by simp
  qed blast
  have p: "d \<or> (elements pg (js ''liConfigureNav'') \<noteq> None
             \<and> elements pg (js ''viewArticle'') \<noteq> None \<and> footer pg \<noteq> None)"
    using assms by (auto simp: theme_page_def)
  have h: "d \<or> frame_head pg"
    using assms by (auto simp: theme_page_def)
  have l: "d \<or> (case articleDocument pg of
                   None \<Rightarrow> True
                 | Some doc \<Rightarrow> (case themeLinks doc of [] \<Rightarrow> True | l # ls \<Rightarrow> l \<noteq> None))"
    using assms by (auto simp: theme_page_def)
  show ?thesis
    apply (simp only: applyAppTheme_def Let_def Some option.case dark_invert_parts if_False
        old_def [symmetric])
    apply (rule holds_seq [where M = "\<lambda>s. footer s = footer pg \<and> elements s = elements pg
                                   \<and> articleDocument s = articleDocument pg"])
    subgoal using t1 by (auto simp add: holds_html_classes holds_Done)
    subgoal premises m1 for s1
      apply (rule holds_seq [where M = "\<lambda>s. footer s \<noteq> None \<and> elements s = elements pg
                                     \<and> articleDocument s = articleDocument pg"])
      subgoal using m1 t2 p
        by (auto simp add: holds_footer_classes dark_invert_tokens split: option.split)
      subgoal premises m2 for s2
        apply (rule holds_seq [where M = "\<lambda>s. js ''dark'' \<in> set (htmlClassList s)
                                       \<and> footer s \<noteq> None \<and> elements s = elements pg
                                       \<and> articleDocument s = articleDocument pg"])
        subgoal using m2 by (simp add: holds_html_classes dark_invert_tokens class_add_mem)
        subgoal premises m3 for s3
          apply (rule holds_seq [where M = "\<lambda>s. themed pg s
                                         \<and> articleDocument s = articleDocument pg"])
          subgoal using m3
            by (auto simp add: holds_footer_classes dark_invert_tokens class_add_mem themed_def)
          subgoal premises m4 for s4
            apply (rule holds_seq [where M = "\<lambda>s. themed pg s \<and> (d \<or> frame_head s)"])
            subgoal using m4 t2 h frame_head_same [of s4 pg]
              by (auto simp add: holds_and_then holds_element_classes_eq holds_Done themed_def
                  kept_update_if_present kept_remove_theme_link frame_head_kept Some
                  split: option.splits)
            subgoal premises m5 for s5
              apply (rule holds_seq [where M = "themed pg"])
              subgoal using m5 l
                by (auto simp add: holds_and_then holds_element_classes_eq holds_Done holds_Thrown
                    holds_append_theme_link themed_def frame_head_def dark_invert_tokens
                    sheet_found_def Some
                    split: option.splits list.splits sum.splits bool.splits)
              subgoal premises m6 for s6
                using m6 p
                by (auto simp add: holds_update_element_eq holds_Done holds_Thrown themed_update
                    showReturnLink_def split: option.splits) (auto simp: themed_def)
              done
            done
          done
        done
      done
    done
qed

text \<open>
  Claim C1. Whenever \<open>applyAppTheme('dark_invert')\<close> returns, the root element has the
  class \<open>dark\<close> and the footer has the class \<open>_invert\<close>; and on a page with the
  article frame, the navigation entry of the configuration section, the return link and a
  footer, whose \<open>data-theme\<close> attribute has no white space, and whose frame
  document (when it can be reached) has a head and a string \<open>href\<close> on its first
  element with the id \<open>kiwixJSTheme\<close> (when there is one), the call does return: no
  exception leaves it.
\<close>

theorem applyAppTheme_dark_invert:
  "(\<forall>pg'. applyAppTheme (js ''dark_invert'') pg = Done pg' \<longrightarrow>
       js ''dark'' \<in> set (htmlClassList pg')
       \<and> (\<exists>cs. footer pg' = Some cs \<and> js ''_invert'' \<in> set cs))
   \<and> (theme_page pg \<longrightarrow>
         (\<exists>pg'. applyAppTheme (js ''dark_invert'') pg = Done pg'
            \<and> js ''dark'' \<in> set (htmlClassList pg')
            \<and> (\<exists>cs. footer pg' = Some cs \<and> js ''_invert'' \<in> set cs)))"
proof (intro conjI allI impI)
  fix pg'
  assume run: "applyAppTheme (js ''dark_invert'') pg = Done pg'"
  from applyAppTheme_holds [of True pg] run have "themed pg pg'"
    by (simp add: holds_after_def)
  then show "js ''dark'' \<in> set (htmlClassList pg')"
    and "\<exists>cs. footer pg' = Some cs \<and> js ''_invert'' \<in> set cs"
    by (simp_all add: themed_def)
next
  assume "theme_page pg"
  with applyAppTheme_holds [of False pg]
  have "holds_after False (applyAppTheme (js ''dark_invert'') pg) (themed pg)" by simp
  then obtain pg' where "applyAppTheme (js ''dark_invert'') pg = Done pg'" and "themed pg pg'"
    by (cases "applyAppTheme (js ''dark_invert'') pg") (simp_all add: holds_after_def)
  then show "\<exists>pg'. applyAppTheme (js ''dark_invert'') pg = Done pg'
            \<and> js ''dark'' \<in> set (htmlClassList pg')
            \<and> (\<exists>cs. footer pg' = Some cs \<and> js ''_invert'' \<in> set cs)"
    by (auto simp: themed_def)
qed

section \<open>Properties of systemAlert\<close>

lemma settle_frame:
  "hideListeners (settle i f pg) = hideListeners pg \<and> elements (settle i f pg) = elements pg
   \<and> length (promises (settle i f pg)) = length (promises pg)"
  by (simp add: settle_def)

lemma settle_nth:
  "i < length (promises pg) \<Longrightarrow>
     promises (settle j f pg) ! i = (if i = j then f (promises pg ! i) else promises pg ! i)"
  by (simp add: settle_def)

lemma modal_step:
  assumes "modal_elements pg" and "elements pg i \<noteq> None"
  shows "\<exists>pg'. update_element i f pg = Done pg' \<and> promises pg' = promises pg
           \<and> hideListeners pg' = hideListeners pg \<and> modal_elements pg'"
  using assms by (auto simp: update_element_def modal_elements_def)

lemma modal_elements_present:
  assumes "modal_elements pg"
  shows "elements pg (js ''approveConfirm'') \<noteq> None" "elements pg (js ''declineConfirm'') \<noteq> None"
    "elements pg (js ''closeMessage'') \<noteq> None" "elements pg (js ''modalLabel'') \<noteq> None"
    "elements pg (js ''modalText'') \<noteq> None" "elements pg (js ''alertModal'') \<noteq> None"
  using assms by (simp_all add: modal_elements_def)

lemma alert_executor_runs:
  assumes "modal_elements pg"
  shows "\<exists>pg'. alert_executor message label isConfirm declineConfirmLabel approveConfirmLabel
                 closeMessageLabel i pg = Done pg'
           \<and> promises pg' = promises (if \<not> truthy message
                then settle i (reject (Reason (JStr (js ''Missing body message'')))) pg else pg)
           \<and> hideListeners pg' = hideListeners pg @ [i] \<and> modal_elements pg'"
proof -
  define pg0 where "pg0 = (if \<not> truthy message
                then settle i (reject (Reason (JStr (js ''Missing body message'')))) pg else pg)"
  have hl: "hideListeners pg0 = hideListeners pg"
    by (simp add: pg0_def settle_frame)
  have m0: "modal_elements pg0"
    using assms by (simp add: pg0_def modal_elements_def settle_frame)
  from modal_step [OF m0 modal_elements_present(1) [OF m0]] obtain pg1 where
    s1: "set_text (js ''approveConfirm'') approveConfirmLabel pg0 = Done pg1"
    and k1: "promises pg1 = promises pg0" "hideListeners pg1 = hideListeners pg0"
    and m1: "modal_elements pg1"
    unfolding set_text_def by blast
  from modal_step [OF m1 modal_elements_present(2) [OF m1]] obtain pg2 where
    s2: "set_text (js ''declineConfirm'') declineConfirmLabel pg1 = Done pg2"
    and k2: "promises pg2 = promises pg1" "hideListeners pg2 = hideListeners pg1"
    and m2: "modal_elements pg2"
    unfolding set_text_def by blast
  from modal_step [OF m2 modal_elements_present(3) [OF m2]] obtain pg3 where
    s3: "set_text (js ''closeMessage'') closeMessageLabel pg2 = Done pg3"
    and k3: "promises pg3 = promises pg2" "hideListeners pg3 = hideListeners pg2"
    and m3: "modal_elements pg3"
    unfolding set_text_def by blast
  from modal_step [OF m3 modal_elements_present(4) [OF m3]] obtain pg4 where
    s4: "set_text (js ''modalLabel'') label pg3 = Done pg4"
    and k4: "promises pg4 = promises pg3" "hideListeners pg4 = hideListeners pg3"
    and m4: "modal_elements pg4"
    unfolding set_text_def by blast
  from modal_step [OF m4 modal_elements_present(5) [OF m4]] obtain pg5 where
    s5: "update_element (js ''modalText'') (\<lambda>e. e\<lparr>markup := InnerHTML (inner_html message)\<rparr>) pg4
           = Done pg5"
    and k5: "promises pg5 = promises pg4" "hideListeners pg5 = hideListeners pg4"
    and m5: "modal_elements pg5"
    by blast
  from modal_step [OF m5 modal_elements_present(1) [OF m5]] obtain pg6 where
    s6: "set_display (js ''approveConfirm'') (if truthy isConfirm then js ''inline'' else js ''none'')
           pg5 = Done pg6"
    and k6: "promises pg6 = promises pg5" "hideListeners pg6 = hideListeners pg5"
    and m6: "modal_elements pg6"
    unfolding set_display_def by blast
  from modal_step [OF m6 modal_elements_present(2) [OF m6]] obtain pg7 where
    s7: "set_display (js ''declineConfirm'') (if truthy isConfirm then js ''inline'' else js ''none'')
           pg6 = Done pg7"
    and k7: "promises pg7 = promises pg6" "hideListeners pg7 = hideListeners pg6"
    and m7: "modal_elements pg7"
    unfolding set_display_def by blast
  from modal_step [OF m7 modal_elements_present(3) [OF m7]] obtain pg8 where
    s8: "set_display (js ''closeMessage'') (if truthy isConfirm then js ''none'' else js ''inline'')
           pg7 = Done pg8"
    and k8: "promises pg8 = promises pg7" "hideListeners pg8 = hideListeners pg7"
    and m8: "modal_elements pg8"
    unfolding set_display_def by blast
  define pg9 where "pg9 = pg8\<lparr>modalShown := True, hideListeners := hideListeners pg8 @ [i]\<rparr>"
  have there: "elements pg8 (js ''alertModal'') \<noteq> None" by (rule modal_elements_present(6) [OF m8])
  have m9: "modal_elements pg9" using m8 by (simp add: pg9_def modal_elements_def)
  from modal_step [OF m9 modal_elements_present(6) [OF m9]] obtain pg10 where
    s10: "update_element (js ''alertModal'')
            (add_listener (js ''keyup'') (PressButtonOnEnter (truthy isConfirm))) pg9 = Done pg10"
    and k10: "promises pg10 = promises pg9" "hideListeners pg10 = hideListeners pg9"
    and m10: "modal_elements pg10"
    by blast
  have "alert_executor message label isConfirm declineConfirmLabel approveConfirmLabel
          closeMessageLabel i pg = Done pg10"
    unfolding alert_executor_def Let_def pg0_def [symmetric]
    by (simp add: s1 s2 s3 s4 s5 s6 s7 s8 and_then_Done there pg9_def [symmetric] s10)
  moreover have "promises pg10 = promises pg0"
    using k1 k2 k3 k4 k5 k6 k7 k8 k10 by (simp add: pg9_def)
  moreover have "hideListeners pg10 = hideListeners pg @ [i]"
    using k1 k2 k3 k4 k5 k6 k7 k8 k10 hl by (simp add: pg9_def)
  ultimately show ?thesis using m10 unfolding pg0_def by blast
qed

lemma systemAlert_result:
  assumes "modal_elements pg"
  shows "fst (systemAlert message label isConfirm declineConfirmLabel approveConfirmLabel
            closeMessageLabel pg) = length (promises pg)
         \<and> promises (snd (systemAlert message label isConfirm declineConfirmLabel approveConfirmLabel
            closeMessageLabel pg))
             = promises pg @ [if truthy message then Pending
                              else Rejected (Reason (JStr (js ''Missing body message'')))]
         \<and> hideListeners (snd (systemAlert message label isConfirm declineConfirmLabel
            approveConfirmLabel closeMessageLabel pg))
             = hideListeners pg @ [length (promises pg)]
         \<and> modal_elements (snd (systemAlert message label isConfirm declineConfirmLabel
            approveConfirmLabel closeMessageLabel pg))"
proof -
  define pg1 where "pg1 = pg\<lparr>promises := promises pg @ [Pending]\<rparr>"
  have m: "modal_elements pg1" using assms by (simp add: pg1_def modal_elements_def)
  from alert_executor_runs [OF m] obtain pg' where
    run: "alert_executor message
            (js_or label (if truthy isConfirm then JStr (js ''Confirmation'') else JStr (js ''Message'')))
            isConfirm (js_or declineConfirmLabel (JStr (js ''Cancel'')))
            (js_or approveConfirmLabel (JStr (js ''Confirm'')))
            (js_or closeMessageLabel (JStr (js ''Okay''))) (length (promises pg)) pg1 = Done pg'"
    and p: "promises pg' = promises (if \<not> truthy message
                then settle (length (promises pg))
                       (reject (Reason (JStr (js ''Missing body message'')))) pg1 else pg1)"
    and h: "hideListeners pg' = hideListeners pg1 @ [length (promises pg)]"
    and m': "modal_elements pg'"
    by blast
  have "systemAlert message label isConfirm declineConfirmLabel approveConfirmLabel
            closeMessageLabel pg = (length (promises pg), pg')"
    unfolding systemAlert_def Let_def pg1_def [symmetric] by (simp add: run)
  with p h m' show ?thesis
    by (simp add: pg1_def settle_def reject_def)
qed

lemma resolve_settled: "p \<noteq> Pending \<Longrightarrow> resolve v p = p"
  by (cases p) (simp_all add: resolve_def)

lemma fold_settle_frame:
  "hideListeners (fold (\<lambda>i. settle i f) ks pg) = hideListeners pg
   \<and> elements (fold (\<lambda>i. settle i f) ks pg) = elements pg
   \<and> length (promises (fold (\<lambda>i. settle i f) ks pg)) = length (promises pg)"
  by (induction ks arbitrary: pg) (simp_all add: settle_frame)

lemma fold_settle_nth:
  assumes "i < length (promises pg)" and "\<And>p. f (f p) = f p"
  shows "promises (fold (\<lambda>j. settle j f) ks pg) ! i
           = (if i \<in> set ks then f (promises pg ! i) else promises pg ! i)"
  using assms(1)
proof (induction ks arbitrary: pg)
  case Nil
  show ?case by simp
next
  case (Cons j ks)
  have "i < length (promises (settle j f pg))"
    using Cons.prems by (simp add: settle_frame)
  from Cons.IH [OF this] show ?case
    using Cons.prems by (simp add: settle_nth assms(2))
qed

lemma resolve_twice: "resolve v (resolve v p) = resolve v p"
  by (cases p) (simp_all add: resolve_def)

lemma modal_hidden_frame:
  "hideListeners (modal_hidden s pg) = hideListeners pg
   \<and> length (promises (modal_hidden s pg)) = length (promises pg)"
  by (simp add: modal_hidden_def fold_settle_frame)

lemma modal_hidden_nth:
  assumes "i < length (promises pg)"
  shows "promises (modal_hidden s pg) ! i
           = (if i \<in> set (hideListeners pg)
              then resolve (JBool (s = js ''approveConfirm'')) (promises pg ! i)
              else promises pg ! i)"
  using fold_settle_nth [OF assms, of "resolve (JBool (s = js ''approveConfirm''))"]
  by (simp add: modal_hidden_def resolve_twice)

lemma modal_hidden_elements: "modal_elements (modal_hidden s pg) = modal_elements pg"
  by (simp add: modal_hidden_def modal_elements_def fold_settle_frame)

lemma ends_seq:
  assumes "ends r M E" and "\<And>s. M s \<Longrightarrow> ends (k s) Q E"
  shows "ends (and_then r k) Q E"
  using assms by (cases r) (simp_all add: ends_def and_then_def)

lemma ends_weaken:
  assumes "ends r Q E" and "\<And>s. Q s \<Longrightarrow> Q' s"
  shows "ends r Q' E"
  using assms by (cases r) (simp_all add: ends_def)

lemma ends_update_element:
  "ends (update_element i f pg) Q E
     = (case elements pg i of
          None \<Rightarrow> E TypeError pg
        | Some e \<Rightarrow> Q (pg\<lparr>elements := (elements pg)(i \<mapsto> f e)\<rparr>))"
  by (simp add: ends_def update_element_def split: option.splits)

text \<open>
  The executor on any page: it ends normally exactly when the page has the elements of the
  modal; otherwise a \<open>TypeError\<close> leaves it. The promises are touched by the first
  line only.
\<close>

lemma alert_executor_ends:
  "ends (alert_executor message label isConfirm declineConfirmLabel approveConfirmLabel
           closeMessageLabel i pg)
     (\<lambda>s. modal_elements pg
          \<and> promises s = promises (if \<not> truthy message
                then settle i (reject (Reason (JStr (js ''Missing body message'')))) pg else pg))
     (\<lambda>e s. e = TypeError \<and> \<not> modal_elements pg
          \<and> promises s = promises (if \<not> truthy message
                then settle i (reject (Reason (JStr (js ''Missing body message'')))) pg else pg))"
proof -
  define pg0 where "pg0 = (if \<not> truthy message
                then settle i (reject (Reason (JStr (js ''Missing body message'')))) pg else pg)"
  define M where "M = (\<lambda>ids (s :: page). promises s = promises pg0
                          \<and> (\<forall>j. (elements s j = None) = (elements pg0 j = None))
                          \<and> list_all (\<lambda>j. elements pg0 j \<noteq> None) ids)"
  have same: "elements pg0 = elements pg" by (simp add: pg0_def settle_frame)
  have start: "M [] pg0" by (simp add: M_def)
  have step: "ends (update_element j f s) (M (j # ids))
                (\<lambda>e s. e = TypeError \<and> \<not> modal_elements pg \<and> promises s = promises pg0)"
    if "M ids s" and "j \<in> set [js ''approveConfirm'', js ''declineConfirm'', js ''closeMessage'',
                               js ''modalLabel'', js ''modalText'', js ''alertModal'']"
    for j f s ids
  proof (cases "elements s j")
    case None
    from that(1) have p: "promises s = promises pg0"
      and dom: "(elements s j = None) = (elements pg0 j = None)"
      by (simp_all add: M_def)
    from dom None have "elements pg j = None" by (simp add: same)
    with that(2) have "\<not> modal_elements pg" by (auto simp: modal_elements_def)
    with None p show ?thesis by (simp add: ends_update_element)
  next
    case (Some e)
    from that(1) have p: "promises s = promises pg0"
      and dom: "\<And>j. (elements s j = None) = (elements pg0 j = None)"
      and ids: "list_all (\<lambda>j. elements pg0 j \<noteq> None) ids"
      by (simp_all add: M_def)
    from dom [of j] Some have here: "elements pg0 j \<noteq> None" by simp
    have "M (j # ids) (s\<lparr>elements := (elements s)(j \<mapsto> f e)\<rparr>)"
      unfolding M_def using p ids here dom by auto
    with Some show ?thesis by (simp add: ends_update_element)
  qed
  show ?thesis
    unfolding alert_executor_def Let_def pg0_def [symmetric] set_text_def set_display_def
    apply (rule ends_seq [OF step [OF start]], simp)
    apply (rule ends_seq [OF step], assumption, simp)
    apply (rule ends_seq [OF step], assumption, simp)
    apply (rule ends_seq [OF step], assumption, simp)
    apply (rule ends_seq [OF step], assumption, simp)
    apply (rule ends_seq [OF step], assumption, simp)
    apply (rule ends_seq [OF step], assumption, simp)
    apply (rule ends_seq [OF step], assumption, simp)
    subgoal premises m for s1 s2 s3 s4 s5 s6 s7 s8
    proof -
      let ?s = "if elements s8 (js ''alertModal'') \<noteq> None
                then s8\<lparr>modalShown := True, hideListeners := hideListeners s8 @ [i]\<rparr> else s8"
      let ?ids = "[js ''closeMessage'', js ''declineConfirm'', js ''approveConfirm'',
                   js ''modalText'', js ''modalLabel'', js ''closeMessage'', js ''declineConfirm'',
                   js ''approveConfirm'']"
      from m(8) have "M ?ids ?s" by (simp add: M_def)
      from step [OF this, of "js ''alertModal''"]
      have "ends (update_element (js ''alertModal'')
                    (add_listener (js ''keyup'') (PressButtonOnEnter (truthy isConfirm))) ?s)
              (M (js ''alertModal'' # ?ids))
              (\<lambda>e s. e = TypeError \<and> \<not> modal_elements pg \<and> promises s = promises pg0)"
        by simp
      then show ?thesis
        by (rule ends_weaken) (simp add: M_def modal_elements_def same)
    qed
    done
qed


lemma systemAlert_promises:
  "fst (systemAlert message label isConfirm declineConfirmLabel approveConfirmLabel
          closeMessageLabel pg) = length (promises pg)
   \<and> promises (snd (systemAlert message label isConfirm declineConfirmLabel approveConfirmLabel
          closeMessageLabel pg))
       = promises pg @ [if \<not> truthy message
                        then Rejected (Reason (JStr (js ''Missing body message'')))
                        else if modal_elements pg then Pending
                        else Rejected (Exception TypeError)]"
proof -
  define pg1 where "pg1 = pg\<lparr>promises := promises pg @ [Pending]\<rparr>"
  define i where "i = length (promises pg)"
  define r where "r = alert_executor message
            (js_or label (if truthy isConfirm then JStr (js ''Confirmation'') else JStr (js ''Message'')))
            isConfirm (js_or declineConfirmLabel (JStr (js ''Cancel'')))
            (js_or approveConfirmLabel (JStr (js ''Confirm'')))
            (js_or closeMessageLabel (JStr (js ''Okay''))) i pg1"
  have call: "systemAlert message label isConfirm declineConfirmLabel approveConfirmLabel
                closeMessageLabel pg
                = (i, case r of Done pg' \<Rightarrow> pg'
                      | Thrown e pg' \<Rightarrow> settle i (reject (Exception e)) pg')"
    unfolding systemAlert_def Let_def r_def i_def pg1_def by (rule refl)
  have same: "modal_elements pg1 = modal_elements pg" by (simp add: pg1_def modal_elements_def)
  have first: "promises (if \<not> truthy message
                then settle i (reject (Reason (JStr (js ''Missing body message'')))) pg1 else pg1)
               = promises pg @ [if \<not> truthy message
                                then Rejected (Reason (JStr (js ''Missing body message'')))
                                else Pending]"
    by (simp add: pg1_def i_def settle_def reject_def)
  note e = alert_executor_ends [of message
      "js_or label (if truthy isConfirm then JStr (js ''Confirmation'') else JStr (js ''Message''))"
      isConfirm "js_or declineConfirmLabel (JStr (js ''Cancel''))"
      "js_or approveConfirmLabel (JStr (js ''Confirm''))"
      "js_or closeMessageLabel (JStr (js ''Okay''))" i pg1, folded r_def, unfolded first same]
  show ?thesis
  proof (cases r)
    case (Done s)
    with e call show ?thesis by (simp add: ends_def i_def)
  next
    case (Thrown err s)
    with e call show ?thesis
      by (simp add: ends_def i_def settle_def reject_def)
  qed
qed

text \<open>
  What an event keeps of a promise made earlier: a promise that is settled stays as it is,
  on every page; and on a page with the elements of the modal, a pending promise whose
  listener is registered stays pending at a further call and is fulfilled when the modal
  is closed.
\<close>

lemma modal_event_step_settled:
  assumes "i < length (promises pg)" and "promises pg ! i \<noteq> Pending"
  shows "i < length (promises (modal_event_step ev pg))
         \<and> promises (modal_event_step ev pg) ! i = promises pg ! i"
proof (cases ev)
  case (Hide s)
  with assms show ?thesis
    by (simp add: modal_hidden_frame modal_hidden_nth resolve_settled)
next
  case (Alert m l c d a k)
  from systemAlert_promises [of m l c d a k pg] assms Alert show ?thesis
    by (simp add: nth_append)
qed

lemma run_settled:
  assumes "i < length (promises pg)" and "promises pg ! i \<noteq> Pending"
  shows "promises (modal_run evs pg) ! i = promises pg ! i"
  using assms
proof (induction evs arbitrary: pg)
  case Nil
  show ?case by (simp add: modal_run_def)
next
  case (Cons ev evs)
  note step = modal_event_step_settled [OF Cons.prems, of ev]
  with Cons.prems(2) have "promises (modal_event_step ev pg) ! i \<noteq> Pending" by simp
  from Cons.IH [OF _ this] step show ?case
    by (simp add: modal_run_def)
qed

lemma modal_event_step_promise:
  assumes "modal_elements pg" and "i < length (promises pg)" and "i \<in> set (hideListeners pg)"
  shows "modal_elements (modal_event_step ev pg)
         \<and> i < length (promises (modal_event_step ev pg))
         \<and> i \<in> set (hideListeners (modal_event_step ev pg))
         \<and> promises (modal_event_step ev pg) ! i
             = (case ev of
                  Hide s \<Rightarrow> resolve (JBool (s = js ''approveConfirm'')) (promises pg ! i)
                | Alert m l c d a k \<Rightarrow> promises pg ! i)"
proof (cases ev)
  case (Hide s)
  with assms show ?thesis
    by (simp add: modal_hidden_elements modal_hidden_frame modal_hidden_nth)
next
  case (Alert m l c d a k)
  from systemAlert_result [OF assms(1), of m l c d a k] assms(2,3) Alert show ?thesis
    by (simp add: nth_append)
qed

lemma run_pending:
  assumes "modal_elements pg" and "i < length (promises pg)" and "i \<in> set (hideListeners pg)"
    and "promises pg ! i = Pending"
  shows "promises (modal_run evs pg) ! i
           = (case first_hide evs of
                None \<Rightarrow> Pending
              | Some s \<Rightarrow> Fulfilled (JBool (s = js ''approveConfirm'')))"
  using assms
proof (induction evs arbitrary: pg)
  case Nil
  then show ?case by (simp add: modal_run_def)
next
  case (Cons ev evs)
  note step = modal_event_step_promise [OF Cons.prems(1-3), of ev]
  show ?case
  proof (cases ev)
    case (Hide s)
    with step Cons.prems(4)
    have now: "promises (modal_event_step ev pg) ! i = Fulfilled (JBool (s = js ''approveConfirm''))"
      by (simp add: resolve_def)
    then have "promises (modal_event_step ev pg) ! i \<noteq> Pending" by simp
    from run_settled [OF _ this, of evs] step now Hide show ?thesis
      by (simp add: modal_run_def)
  next
    case (Alert m l c d a k)
    with step Cons.prems(4) have "promises (modal_event_step ev pg) ! i = Pending" by simp
    from Cons.IH [OF _ _ _ this] step Alert show ?thesis
      by (simp add: modal_run_def)
  qed
qed

text \<open>
  Claim C2, as amended. \<open>systemAlert\<close> returns a new promise, and after any sequence
  of events at the modal (it is closed, or \<open>systemAlert\<close> is called again) that promise
  is: rejected with the reason \<open>Missing body message\<close> when the message is falsy,
  whatever happens later; rejected with a \<open>TypeError\<close> when the message is truthy and
  the page lacks one of the six elements of the modal that the function looks up (the
  executor of the promise throws); and otherwise, on a page with these elements, never
  rejected: pending as long as the modal has not been closed, and from the first close on
  fulfilled with \<open>true\<close> if the focus was on the element \<open>approveConfirm\<close> then,
  with \<open>false\<close> if it was anywhere else.
\<close>

theorem systemAlert_promise:
  "fst (systemAlert message label isConfirm declineConfirmLabel approveConfirmLabel
          closeMessageLabel pg) = length (promises pg)
   \<and> (\<forall>evs.
        promises (modal_run evs
           (snd (systemAlert message label isConfirm declineConfirmLabel approveConfirmLabel
              closeMessageLabel pg))) ! length (promises pg)
          = (if \<not> truthy message
             then Rejected (Reason (JStr (js ''Missing body message'')))
             else if modal_elements pg
             then (case first_hide evs of
                     None \<Rightarrow> Pending
                   | Some s \<Rightarrow> Fulfilled (JBool (s = js ''approveConfirm'')))
             else Rejected (Exception TypeError)))"
proof -
  let ?pg = "snd (systemAlert message label isConfirm declineConfirmLabel approveConfirmLabel
                    closeMessageLabel pg)"
  let ?i = "length (promises pg)"
  note r = systemAlert_promises [of message label isConfirm declineConfirmLabel
      approveConfirmLabel closeMessageLabel pg]
  have len: "?i < length (promises ?pg)" using r by simp
  have at: "promises ?pg ! ?i
              = (if \<not> truthy message
                 then Rejected (Reason (JStr (js ''Missing body message'')))
                 else if modal_elements pg then Pending
                 else Rejected (Exception TypeError))"
    using r by simp
  show ?thesis
  proof (cases "truthy message \<and> modal_elements pg")
    case True
    note q = systemAlert_result [of pg message label isConfirm declineConfirmLabel
        approveConfirmLabel closeMessageLabel]
    from True q have page: "modal_elements ?pg" and mem: "?i \<in> set (hideListeners ?pg)"
      by simp_all
    from True at have "promises ?pg ! ?i = Pending" by simp
    from run_pending [OF page len mem this] True r show ?thesis by simp
  next
    case False
    with at have "promises ?pg ! ?i \<noteq> Pending" by auto
    from run_settled [OF len this] False at r show ?thesis by auto
  qed
qed

section \<open>Properties of displayActiveContentWarning and displayFileDownloadAlert\<close>

lemma state_of_and_then:
  "state_of (and_then r f) = (case r of Done s \<Rightarrow> state_of (f s) | Thrown e s \<Rightarrow> s)"
  by (cases r) (simp_all add: and_then_def state_of_def)

lemma alert_ids_distinct:
  "js ''activeContent'' \<noteq> js ''swModeLink''" "js ''activeContent'' \<noteq> js ''stop''"
  "js ''activeContent'' \<noteq> js ''downloadAlert''" "js ''swModeLink'' \<noteq> js ''stop''"
  "js ''swModeLink'' \<noteq> js ''downloadAlert''" "js ''stop'' \<noteq> js ''downloadAlert''"
  by (simp_all add: js_def ch_def)

lemma alerts_state_cosmetic:
  assumes "alerts_state ha l1 l2 hb s1 s2 pg" and "cosmetic f"
  shows "alerts_state ha l1 l2 hb s1 s2 (state_of (update_element i f pg))"
proof (cases "elements pg i")
  case None
  with assms(1) show ?thesis by (simp add: update_element_def state_of_def)
next
  case (Some e)
  with assms show ?thesis
    unfolding alerts_state_def update_element_def state_of_def cosmetic_def
    by (auto simp: )
qed

lemma alerts_state_cosmetic_present:
  assumes "alerts_state ha l1 l2 hb s1 s2 pg" and "cosmetic f"
  shows "alerts_state ha l1 l2 hb s1 s2 (update_if_present i f pg)"
proof (cases "elements pg i")
  case None
  with assms(1) show ?thesis by (simp add: update_if_present_def)
next
  case (Some e)
  with assms show ?thesis
    unfolding alerts_state_def update_if_present_def cosmetic_def
    by (auto simp: )
qed

lemma cosmetic_display: "cosmetic (\<lambda>e. e\<lparr>display := d\<rparr>)"
  and cosmetic_markup: "cosmetic (\<lambda>e. e\<lparr>markup := m\<rparr>)"
  by (simp_all add: cosmetic_def)

lemma alerts_state_link:
  "alerts_state ha l1 l2 hb s1 s2 pg \<Longrightarrow> alerts_state ha l1 l2 hb s1 s2 (pg\<lparr>downloadLink := l\<rparr>)"
  by (simp add: alerts_state_def)


lemma set_display_present:
  "elements pg i = Some e \<Longrightarrow>
     set_display i d pg = Done (pg\<lparr>elements := (elements pg)(i \<mapsto> e\<lparr>display := d\<rparr>)\<rparr>)"
  by (simp add: set_display_def update_element_def)

lemma alerts_state_elements:
  assumes "alerts_state ha l1 l2 hb s1 s2 pg"
  shows "\<exists>a d. elements pg (js ''activeContent'') = Some a \<and> elements pg (js ''downloadAlert'') = Some d"
    and "activeContentWarningSetup pg = s1" and "downloadAlertSetup pg = s2"
  using assms by (auto simp: alerts_state_def)

lemma attach_active_content_listeners:
  assumes "alerts_state ha l1 l2 hb False s2 pg"
  shows "alerts_state ha l1 l2 hb True s2
           (state_of
             (and_then (add_dismiss_listener (js ''activeContent'')
                          (HideElement (js ''activeContent''))
                          (pg\<lparr>activeContentWarningSetup := True\<rparr>)) (\<lambda>pg.
              and_then (update_element (js ''swModeLink'')
                          (add_listener (js ''click'') (HighlightOption (js ''swModeLink''))) pg) (\<lambda>pg.
              update_element (js ''stop'')
                (add_listener (js ''click'') (HighlightOption (js ''stop''))) pg))))"
  using assms
  by (auto simp: alerts_state_def and_then_def state_of_def add_dismiss_listener_def
      update_element_def add_listener_def alert_ids_distinct alert_ids_distinct [symmetric])

lemma displayActiveContentWarning_step:
  assumes "alerts_state ha l1 l2 hb s1 s2 pg"
  shows "alerts_state ha l1 l2 hb True s2 (state_of (displayActiveContentWarning pg))"
proof -
  from alerts_state_elements(1) [OF assms] obtain a
    where a: "elements pg (js ''activeContent'') = Some a" by blast
  define pg1 where "pg1 = pg\<lparr>elements := (elements pg)(js ''activeContent'' \<mapsto> a\<lparr>display := []\<rparr>)\<rparr>"
  have shown: "set_display (js ''activeContent'') [] pg = Done pg1"
    unfolding pg1_def using a by (rule set_display_present)
  have inv1: "alerts_state ha l1 l2 hb s1 s2 pg1"
    using alerts_state_cosmetic [OF assms cosmetic_display, of "js ''activeContent''" "[]"] a
    by (simp add: update_element_def state_of_def pg1_def)
  show ?thesis
  proof (cases s1)
    case True
    with alerts_state_elements(2) [OF inv1] have "activeContentWarningSetup pg1" by simp
    with shown inv1 True show ?thesis
      by (simp add: displayActiveContentWarning_def and_then_def state_of_def)
  next
    case False
    with alerts_state_elements(2) [OF inv1] have flag: "\<not> activeContentWarningSetup pg1" by simp
    from inv1 False have "alerts_state ha l1 l2 hb False s2 pg1" by simp
    from attach_active_content_listeners [OF this] flag shown show ?thesis
      by (simp add: displayActiveContentWarning_def and_then_def Let_def)
  qed
qed

lemma attach_download_listener:
  assumes "alerts_state ha l1 l2 hb s1 False pg"
  shows "\<exists>pg2. add_dismiss_listener (js ''downloadAlert'') (HideElement (js ''downloadAlert'')) pg
                 = Done pg2
           \<and> alerts_state ha l1 l2 hb s1 True (pg2\<lparr>downloadAlertSetup := True\<rparr>)"
  using assms
  by (auto simp: alerts_state_def add_dismiss_listener_def alert_ids_distinct
      alert_ids_distinct [symmetric])

lemma keep_download_flag:
  "alerts_state ha l1 l2 hb s1 True pg \<Longrightarrow>
     alerts_state ha l1 l2 hb s1 True (pg\<lparr>downloadAlertSetup := True\<rparr>)"
  by (auto simp: alerts_state_def)

lemma displayFileDownloadAlert_step:
  assumes "alerts_state ha l1 l2 hb s1 s2 pg"
  shows "alerts_state ha l1 l2 hb s1 True
           (state_of (displayFileDownloadAlert title download contentType pg))"
proof -
  from alerts_state_elements(1) [OF assms] obtain d
    where d: "elements pg (js ''downloadAlert'') = Some d" by blast
  define pg1 where "pg1 = pg\<lparr>elements := (elements pg)(js ''downloadAlert'' \<mapsto> d\<lparr>display := js ''block''\<rparr>)\<rparr>"
  have shown: "set_display (js ''downloadAlert'') (js ''block'') pg = Done pg1"
    unfolding pg1_def using d by (rule set_display_present)
  have inv1: "alerts_state ha l1 l2 hb s1 s2 pg1"
    using alerts_state_cosmetic [OF assms cosmetic_display, of "js ''downloadAlert''" "js ''block''"] d
    by (simp add: update_element_def state_of_def pg1_def)
  obtain pg2 where attach: "(if \<not> downloadAlertSetup pg1
               then add_dismiss_listener (js ''downloadAlert'') (HideElement (js ''downloadAlert'')) pg1
               else Done pg1) = Done pg2"
    and inv2: "alerts_state ha l1 l2 hb s1 True (pg2\<lparr>downloadAlertSetup := True\<rparr>)"
  proof (cases s2)
    case True
    with alerts_state_elements(3) [OF inv1] have "downloadAlertSetup pg1" by simp
    moreover from inv1 True have "alerts_state ha l1 l2 hb s1 True (pg1\<lparr>downloadAlertSetup := True\<rparr>)"
      by (simp add: keep_download_flag)
    ultimately show ?thesis using that by simp
  next
    case False
    with alerts_state_elements(3) [OF inv1] have flag: "\<not> downloadAlertSetup pg1" by simp
    from inv1 False have "alerts_state ha l1 l2 hb s1 False pg1" by simp
    from attach_download_listener [OF this] flag show ?thesis using that by auto
  qed
  define pg3 where "pg3 = pg2\<lparr>downloadAlertSetup := True\<rparr>"
  define message where "message = (\<lambda>e :: element. e\<lparr>markup := InnerHTML (js ''<strong>Download</strong> If the download does not start, please tap the following link: '')\<rparr>)"
  define link where "link = (\<lambda>name. Some \<lparr>linkType = to_string (if \<not> truthy contentType
                        then JStr (js ''application/octet-stream'') else contentType),
                      linkDownload = safe_filename name\<rparr>)"
  have inv3: "alerts_state ha l1 l2 hb s1 True pg3" using inv2 by (simp add: pg3_def)
  have rest: "alerts_state ha l1 l2 hb s1 True
      (state_of (case (if download = JBool True then JStr (after_last_slash title) else download) of
          JStr name \<Rightarrow>
            and_then (update_element (js ''alertMessage'') message pg3) (\<lambda>pg.
              set_display (js ''searchingArticles'') (js ''none'') (pg\<lparr>downloadLink := link name\<rparr>))
        | _ \<Rightarrow> Thrown TypeError pg3))"
  proof (cases "if download = JBool True then JStr (after_last_slash title) else download")
    case (JStr name)
    have i4: "alerts_state ha l1 l2 hb s1 True (state_of (update_element (js ''alertMessage'') message pg3))"
      unfolding message_def by (rule alerts_state_cosmetic [OF inv3 cosmetic_markup])
    show ?thesis
    proof (cases "update_element (js ''alertMessage'') message pg3")
      case (Thrown e pg4)
      with i4 JStr show ?thesis by (simp add: and_then_def state_of_def)
    next
      case (Done pg4)
      with i4 have "alerts_state ha l1 l2 hb s1 True pg4" by (simp add: state_of_def)
      then have "alerts_state ha l1 l2 hb s1 True
          (state_of (set_display (js ''searchingArticles'') (js ''none'')
              (pg4\<lparr>downloadLink := link name\<rparr>)))"
        unfolding set_display_def
        by (intro alerts_state_cosmetic cosmetic_display alerts_state_link)
      with Done JStr show ?thesis by (simp add: and_then_def)
    qed
  qed (use inv3 in \<open>simp_all add: state_of_def\<close>)
  have "displayFileDownloadAlert title download contentType pg =
      (case (if download = JBool True then JStr (after_last_slash title) else download) of
          JStr name \<Rightarrow>
            and_then (update_element (js ''alertMessage'') message pg3) (\<lambda>pg.
              set_display (js ''searchingArticles'') (js ''none'') (pg\<lparr>downloadLink := link name\<rparr>))
        | _ \<Rightarrow> Thrown TypeError pg3)"
    by (simp only: displayFileDownloadAlert_def shown and_then_Done attach Let_def pg3_def
        message_def link_def)
  with rest show ?thesis by simp
qed

lemma run_handler_inv:
  "alerts_state ha l1 l2 hb s1 s2 pg \<Longrightarrow> alerts_state ha l1 l2 hb s1 s2 (run_handler h pg)"
  by (cases h) (simp_all add: alerts_state_cosmetic_present cosmetic_display)

lemma fold_run_handler_inv:
  "alerts_state ha l1 l2 hb s1 s2 pg \<Longrightarrow> alerts_state ha l1 l2 hb s1 s2 (fold run_handler hs pg)"
  by (induction hs arbitrary: pg) (simp_all add: run_handler_inv)

lemma click_dismiss_inv:
  "alerts_state ha l1 l2 hb s1 s2 pg \<Longrightarrow> alerts_state ha l1 l2 hb s1 s2 (click_dismiss i pg)"
  by (simp add: click_dismiss_def fold_run_handler_inv split: option.splits)

lemma alert_step_inv:
  assumes "alerts_state ha l1 l2 hb s1 s2 pg"
  shows "alerts_state ha l1 l2 hb (s1 \<or> ev = ActiveContentWarning) (s2 \<or> is_download_alert ev)
           (alert_step ev pg)"
proof (cases ev)
  case ActiveContentWarning
  with displayActiveContentWarning_step [OF assms] show ?thesis by simp
next
  case (FileDownloadAlert title download contentType)
  with displayFileDownloadAlert_step [OF assms] show ?thesis by simp
next
  case DismissActiveContent
  with click_dismiss_inv [OF assms] show ?thesis by simp
next
  case DismissDownloadAlert
  with click_dismiss_inv [OF assms] show ?thesis by simp
qed

lemma alert_run_inv:
  assumes "alerts_state ha l1 l2 hb s1 s2 pg"
  shows "alerts_state ha l1 l2 hb (s1 \<or> ActiveContentWarning \<in> set evs)
           (s2 \<or> list_ex is_download_alert evs) (alert_run evs pg)"
  using assms
proof (induction evs arbitrary: pg s1 s2)
  case Nil
  then show ?case by (simp add: alert_run_def)
next
  case (Cons ev evs)
  from Cons.IH [OF alert_step_inv [OF Cons.prems, of ev]]
  show ?case by (simp add: alert_run_def disj_ac eq_commute)
qed


lemma displayActiveContentWarning_shows:
  assumes "alerts_state ha l1 l2 hb s1 s2 pg"
  shows "\<exists>a. elements (state_of (displayActiveContentWarning pg)) (js ''activeContent'') = Some a
           \<and> display a = []"
  using assms
  by (cases s1)
     (auto simp: alerts_state_def displayActiveContentWarning_def set_display_def
        update_element_def and_then_def state_of_def add_dismiss_listener_def add_listener_def
        Let_def alert_ids_distinct alert_ids_distinct [symmetric])

lemma more_ids_distinct:
  "js ''alertMessage'' \<noteq> js ''downloadAlert''" "js ''searchingArticles'' \<noteq> js ''downloadAlert''"
  by (simp_all add: js_def ch_def)

lemma displayFileDownloadAlert_shows:
  assumes "alerts_state ha l1 l2 hb s1 s2 pg"
  shows "\<exists>d. elements (state_of (displayFileDownloadAlert title download contentType pg))
                (js ''downloadAlert'') = Some d
           \<and> display d = js ''block''"
  using assms
  by (cases s2)
     (auto simp: alerts_state_def displayFileDownloadAlert_def set_display_def
        update_element_def and_then_def state_of_def add_dismiss_listener_def
        Let_def more_ids_distinct more_ids_distinct [symmetric]
        split: jsval.splits option.splits)

lemma displayActiveContentWarning_again:
  assumes "activeContentWarningSetup pg" and "elements pg (js ''activeContent'') = Some a"
  shows "displayActiveContentWarning pg
           = Done (pg\<lparr>elements := (elements pg)(js ''activeContent'' \<mapsto> a\<lparr>display := []\<rparr>)\<rparr>)"
  using assms
  by (simp add: displayActiveContentWarning_def set_display_def update_element_def and_then_def)

lemma alert_run_append: "alert_run (evs @ [ev]) pg = alert_step ev (alert_run evs pg)"
  by (simp add: alert_run_def)

text \<open>
  Claim C6. Start from a page that has the two alerts with their dismiss buttons and the
  two hyperlinks, and on which neither function has run yet (both flags are
  \<open>false\<close>). After every sequence of calls of the two functions and clicks on the
  dismiss buttons, the click listeners of a dismiss button or hyperlink are the ones it had
  at the start, followed by the listener of the module exactly once if the function of
  that alert has been called in the sequence and not at all otherwise; and the flag of the
  module tells which of the two it is. A further call shows the alert (\<open>display\<close> is
  empty for the active-content warning, \<open>block\<close> for the download alert); and a
  further call of \<open>displayActiveContentWarning\<close>, when an earlier one is in the
  sequence, changes nothing but that \<open>display\<close>.
\<close>

theorem alert_listeners_attached_once:
  assumes "alerts_state ha l1 l2 hb False False pg"
  shows "alerts_state ha l1 l2 hb (ActiveContentWarning \<in> set evs) (list_ex is_download_alert evs)
           (alert_run evs pg)
         \<and> (\<exists>a. elements (alert_run (evs @ [ActiveContentWarning]) pg) (js ''activeContent'') = Some a
               \<and> display a = [])
         \<and> (\<exists>d. elements (alert_run (evs @ [FileDownloadAlert title download contentType]) pg)
                    (js ''downloadAlert'') = Some d
               \<and> display d = js ''block'')
         \<and> (ActiveContentWarning \<in> set evs \<longrightarrow>
              (\<exists>a. elements (alert_run evs pg) (js ''activeContent'') = Some a
                 \<and> alert_run (evs @ [ActiveContentWarning]) pg
                     = (alert_run evs pg)\<lparr>elements :=
                          (elements (alert_run evs pg))(js ''activeContent'' \<mapsto> a\<lparr>display := []\<rparr>)\<rparr>))"
proof -
  from alert_run_inv [OF assms, of evs]
  have inv: "alerts_state ha l1 l2 hb (ActiveContentWarning \<in> set evs)
      (list_ex is_download_alert evs) (alert_run evs pg)"
    by simp
  from displayActiveContentWarning_shows [OF inv]
  have shown: "\<exists>a. elements (alert_run (evs @ [ActiveContentWarning]) pg) (js ''activeContent'') = Some a
           \<and> display a = []"
    by (simp add: alert_run_append)
  from displayFileDownloadAlert_shows [OF inv]
  have download: "\<exists>d. elements (alert_run (evs @ [FileDownloadAlert title download contentType]) pg)
                (js ''downloadAlert'') = Some d
           \<and> display d = js ''block''"
    by (simp add: alert_run_append)
  have again: "\<exists>a. elements (alert_run evs pg) (js ''activeContent'') = Some a
                 \<and> alert_run (evs @ [ActiveContentWarning]) pg
                     = (alert_run evs pg)\<lparr>elements :=
                          (elements (alert_run evs pg))(js ''activeContent'' \<mapsto> a\<lparr>display := []\<rparr>)\<rparr>"
    if called: "ActiveContentWarning \<in> set evs"
  proof -
    from inv called have flag: "activeContentWarningSetup (alert_run evs pg)"
      by (auto simp: alerts_state_def)
    from inv obtain a where a: "elements (alert_run evs pg) (js ''activeContent'') = Some a"
      by (auto simp: alerts_state_def)
    from displayActiveContentWarning_again [OF flag a] a show ?thesis
      by (simp add: alert_run_append state_of_def)
  qed
  from inv shown download again show ?thesis by blast
qed

section \<open>Properties of feedNodeWithDataURI\<close>

lemma call_back_calls:
  "callbackCalls (state_of (call_back callback st))
     = callbackCalls st + (if callback = None then 0 else 1)"
  by (cases callback) (auto simp: call_back_def state_of_def split: callback.splits)

lemma call_back_frame:
  "nodeAttributes (state_of (call_back callback st)) = nodeAttributes st
   \<and> nodeCanvas (state_of (call_back callback st)) = nodeCanvas st
   \<and> consoleErrors (state_of (call_back callback st)) = consoleErrors st
   \<and> decodeCalls (state_of (call_back callback st)) = decodeCalls st"
  by (cases callback) (auto simp: call_back_def state_of_def split: callback.splits)

lemma unhandled_state_of:
  "nodeAttributes (unhandled r) = nodeAttributes (state_of r)
   \<and> nodeCanvas (unhandled r) = nodeCanvas (state_of r)
   \<and> consoleErrors (unhandled r) = consoleErrors (state_of r)
   \<and> callbackCalls (unhandled r) = callbackCalls (state_of r)
   \<and> decodeCalls (unhandled r) = decodeCalls (state_of r)"
  by (cases r) (simp_all add: unhandled_def state_of_def)

text \<open>
  Claim C7. When the WebP decoder rejects the image (its promise fails with \<open>err\<close>),
  \<open>feedNodeWithDataURI\<close> returns normally; exactly one message, with that error, has
  been added to the console; the callback, when there is one, has been called exactly
  once; the decoder has been called exactly once (no second attempt); and the attributes
  of the node are what they were, the node not being replaced by a canvas either.
\<close>

theorem feedNodeWithDataURI_decode_failure:
  assumes "webpMachine env = Some decodeToCanvas"
    and "contains_ci (js ''image/webp'') mimeType"
    and "binary_content env content = Inr bytes"
    and "decodeToCanvas bytes = DecodeFailed err"
  shows "\<exists>st'. feedNodeWithDataURI env nodeAttribute content mimeType callback st = Done st'
           \<and> consoleErrors st' = consoleErrors st
                @ [(js ''There was an error decoding image in WebpMachine'', err)]
           \<and> callbackCalls st' = callbackCalls st + (if callback = None then 0 else 1)
           \<and> decodeCalls st' = decodeCalls st + 1
           \<and> nodeAttributes st' = nodeAttributes st
           \<and> nodeCanvas st' = nodeCanvas st"
proof -
  let ?logged = "st\<lparr>decodeCalls := Suc (decodeCalls st),
                     consoleErrors := consoleErrors st
                       @ [(js ''There was an error decoding image in WebpMachine'', err)]\<rparr>"
  let ?st' = "unhandled (call_back callback ?logged)"
  have run: "feedNodeWithDataURI env nodeAttribute content mimeType callback st = Done ?st'"
    using assms by (simp add: feedNodeWithDataURI_def on_decode_error_def Let_def)
  have "consoleErrors ?st' = consoleErrors ?logged"
    and "callbackCalls ?st' = callbackCalls ?logged + (if callback = None then 0 else 1)"
    and "decodeCalls ?st' = decodeCalls ?logged"
    and "nodeAttributes ?st' = nodeAttributes ?logged"
    and "nodeCanvas ?st' = nodeCanvas ?logged"
    using unhandled_state_of [of "call_back callback ?logged"]
      call_back_calls [of callback ?logged] call_back_frame [of callback ?logged]
    by simp_all
  with run show ?thesis by simp
qed

theorem feedNodeWithDataURI_decode_failure_witness:
  "\<exists>st'. feedNodeWithDataURI busy_decoder (js ''src'') (Bytes [1, 2, 3]) (js ''image/webp'')
            (Some Returns) fresh_node = Done st'
     \<and> consoleErrors st' = [(js ''There was an error decoding image in WebpMachine'', js ''busy'')]
     \<and> callbackCalls st' = 1 \<and> decodeCalls st' = 1
     \<and> nodeAttributes st' (js ''src'') = None"
proof -
  have m: "webpMachine busy_decoder = Some (\<lambda>c. DecodeFailed (js ''busy''))"
    by (simp add: busy_decoder_def)
  have w: "contains_ci (js ''image/webp'') (js ''image/webp'')"
    by (simp add: js_def ch_def ascii_upper_def)
  have b: "binary_content busy_decoder (Bytes [1, 2, 3]) = Inr (Bytes [1, 2, 3])"
    by (simp add: binary_content_def)
  have d: "(\<lambda>c. DecodeFailed (js ''busy'')) (Bytes [1, 2, 3]) = DecodeFailed (js ''busy'')"
    by simp
  from feedNodeWithDataURI_decode_failure [OF m w b d, of "js ''src''" "Some Returns" fresh_node]
  show ?thesis by (auto simp: fresh_node_def)
qed

section \<open>The theorems on concrete states\<close>

text \<open>
  The theorems above applied to the example states, and the runs that show where a claim
  had to be amended. Each run is evaluated with the equations of the definitions.
\<close>

theorem init_appCache_in_jquery_mode_witness:
  "\<exists>params b'. init (js ''local_storage'') jquery_launch = Done (params, b')
     \<and> localStorage b' (js ''kiwixjs-appCache'') = Some (js ''false'')
     \<and> get_prop params (js ''contentInjectionMode'') = JStr (js ''jquery'')
     \<and> get_prop params (js ''appCache'') = JBool True"
proof -
  have "case init (js ''local_storage'') jquery_launch of
          Done (params, b') \<Rightarrow>
            localStorage b' (js ''kiwixjs-appCache'') = Some (js ''false'')
            \<and> get_prop params (js ''contentInjectionMode'') = JStr (js ''jquery'')
        | Thrown e st \<Rightarrow> False"
    by code_simp
  then obtain params b' where run: "init (js ''local_storage'') jquery_launch = Done (params, b')"
    and stored: "localStorage b' (js ''kiwixjs-appCache'') = Some (js ''false'')"
    and mode: "get_prop params (js ''contentInjectionMode'') = JStr (js ''jquery'')"
    by (auto split: outcome.splits)
  from init_appCache_in_jquery_mode [OF run mode] run stored mode show ?thesis by blast
qed

theorem overrideParams_title_witness:
  "get_prop (state_of (load_params (js ''local_storage'') jquery_launch)) (js ''keyPrefix'')
     = JStr (js ''kiwixjs-'')
   \<and> decoded_pairs (url_params (locationSearch jquery_launch))
     = [(js ''contentInjectionMode'', JStr (js ''jquery'')), (js ''appCache'', JBool False)]
   \<and> localStorage (snd (state_of (overrideParams
         (state_of (load_params (js ''local_storage'') jquery_launch), jquery_launch))))
         (js ''kiwixjs-title'') = None
   \<and> (\<exists>params' b'. overrideParams
         (state_of (load_params (js ''local_storage'') jquery_launch), jquery_launch)
           = Done (params', b')
        \<and> get_prop params' (js ''contentInjectionMode'') = JStr (js ''jquery'')
        \<and> localStorage b' (js ''kiwixjs-'' @ js ''appCache'') = Some (js ''false''))
   \<and> (\<exists>params' b'. overrideParams
         (state_of (load_params (js ''cookie'') jquery_launch), jquery_launch)
           = Done (params', b')
        \<and> map_of (cookieJar b') (js ''appCache'') = Some (js ''false''))"
proof -
  let ?p = "state_of (load_params (js ''local_storage'') jquery_launch)"
  have pre: "get_prop ?p (js ''keyPrefix'') = JStr (js ''kiwixjs-'')"
    and mode: "get_prop ?p (js ''storeType'') = JStr (js ''local_storage'')"
    by code_simp+
  have pairs: "decoded_pairs (url_params (locationSearch jquery_launch))
     = [(js ''contentInjectionMode'', JStr (js ''jquery'')), (js ''appCache'', JBool False)]"
    by code_simp
  have keys: "js ''keyPrefix'' \<notin> fst ` set (decoded_pairs (url_params (locationSearch jquery_launch)))"
    "js ''storeType'' \<notin> fst ` set (decoded_pairs (url_params (locationSearch jquery_launch)))"
    unfolding pairs by (simp_all add: js_def ch_def)
  have before: "localStorage jquery_launch (js ''kiwixjs-title'') = None"
    by code_simp
  have "case overrideParams (?p, jquery_launch) of Done st \<Rightarrow> True | Thrown e st \<Rightarrow> False"
    by code_simp
  then obtain params' b' where run: "overrideParams (?p, jquery_launch) = Done (params', b')"
    by (auto split: outcome.splits)
  note main = overrideParams_title [of jquery_launch ?p]
  from main pre keys before
  have title: "localStorage (snd (state_of (overrideParams (?p, jquery_launch)))) (js ''kiwixjs-title'')
                 = None"
    by simp
  have np: "js ''contentInjectionMode'' \<noteq> js ''__proto__''" by (simp add: js_def ch_def)
  from main run np
  have "get_prop params' (js ''contentInjectionMode'')
          = (case map_of (rev (decoded_pairs (url_params (locationSearch jquery_launch))))
                   (js ''contentInjectionMode'') of
               None \<Rightarrow> get_prop ?p (js ''contentInjectionMode'') | Some val \<Rightarrow> val)"
    by blast
  then have assigned: "get_prop params' (js ''contentInjectionMode'') = JStr (js ''jquery'')"
    unfolding pairs by (simp add: js_def ch_def)
  from main run mode pre keys
  have "localStorage b' (js ''kiwixjs-'' @ js ''appCache'')
          = (case map_of (rev (decoded_pairs (url_params (locationSearch jquery_launch))))
                   (js ''appCache'') of
               None \<Rightarrow> localStorage jquery_launch (js ''kiwixjs-'' @ js ''appCache'')
             | Some val \<Rightarrow> Some (to_string val))"
    by blast
  then have stored: "localStorage b' (js ''kiwixjs-'' @ js ''appCache'') = Some (js ''false'')"
    unfolding pairs by (simp add: js_def ch_def)
  let ?c = "state_of (load_params (js ''cookie'') jquery_launch)"
  have cookie: "get_prop ?c (js ''storeType'') = JStr (js ''cookie'')" by code_simp
  have name: "encodeURIComponent (js ''appCache'') = Inr (js ''appCache'')"
    "js ''appCache'' \<noteq> []"
    by code_simp+
  have "case overrideParams (?c, jquery_launch) of Done st \<Rightarrow> True | Thrown e st \<Rightarrow> False"
    by code_simp
  then obtain params'' b'' where
    cookie_run: "overrideParams (?c, jquery_launch) = Done (params'', b'')"
    by (auto split: outcome.splits)
  from overrideParams_title [of jquery_launch ?c] cookie_run cookie keys(2) name
  have "case map_of (rev (decoded_pairs (url_params (locationSearch jquery_launch))))
               (js ''appCache'') of
          None \<Rightarrow> map_of (cookieJar b'') (js ''appCache'')
                    = map_of (cookieJar jquery_launch) (js ''appCache'')
        | Some val \<Rightarrow>
            (\<exists>v. encodeURIComponent (to_string val) = Inr v
               \<and> map_of (cookieJar b'') (js ''appCache'') = Some v)"
    by blast
  moreover have "encodeURIComponent (js ''false'') = Inr (js ''false'')" by code_simp
  ultimately have in_cookie: "map_of (cookieJar b'') (js ''appCache'') = Some (js ''false'')"
    unfolding pairs by (simp add: js_def ch_def)
  from pre pairs title run assigned stored cookie_run in_cookie show ?thesis by blast
qed

theorem overrideParams_title_counterexample:
  "localStorage prefix_launch (js ''kiwixjs-title'') = None
   \<and> localStorage (snd (state_of (overrideParams
         (state_of (load_params (js ''local_storage'') prefix_launch), prefix_launch))))
         (js ''kiwixjs-title'') = Some (js ''x'')
   \<and> url_params (locationSearch malformed_launch)
       = [(js ''appTheme'', js ''%''), (js ''appCache'', js ''true'')]
   \<and> (case overrideParams
          (state_of (load_params (js ''local_storage'') malformed_launch), malformed_launch) of
         Done st \<Rightarrow> False
       | Thrown e st \<Rightarrow> e = URIError)
   \<and> get_prop (fst (state_of (overrideParams
         (state_of (load_params (js ''local_storage'') malformed_launch), malformed_launch))))
         (js ''appCache'') = JBool False
   \<and> localStorage (snd (state_of (overrideParams
         (state_of (load_params (js ''local_storage'') malformed_launch), malformed_launch))))
         (js ''kiwixjs-appCache'') = Some (js ''false'')"
  by code_simp

theorem getSetting_values_witness:
  "get_prop (initial_params (js ''local_storage'')) (js ''storeType'') = JStr (js ''local_storage'')
   \<and> getSetting (initial_params (js ''local_storage'')) jquery_launch (js ''appCache'')
       = Inr (JBool False)
   \<and> stored_setting (initial_params (js ''local_storage'')) jquery_launch (js ''appCache'')
       = Inr (JStr (js ''false''))"
proof -
  have mode: "get_prop (initial_params (js ''local_storage'')) (js ''storeType'')
                = JStr (js ''local_storage'')"
    by code_simp
  have got: "getSetting (initial_params (js ''local_storage'')) jquery_launch (js ''appCache'')
               = Inr (JBool False)"
    by code_simp
  from getSetting_values [of "initial_params (js ''local_storage'')" jquery_launch "js ''appCache''"]
    mode got
  have "\<exists>r. stored_setting (initial_params (js ''local_storage'')) jquery_launch (js ''appCache'')
               = Inr r \<and> (r = JNull \<or> (\<exists>s. r = JStr s))
          \<and> JBool False = (if r = JNull \<or> r = JStr (js ''undefined'') then JNull
                    else if r = JStr (js ''true'') then JBool True
                    else if r = JStr (js ''false'') then JBool False
                    else r)"
    by blast
  then have "stored_setting (initial_params (js ''local_storage'')) jquery_launch (js ''appCache'')
               = Inr (JStr (js ''false''))"
    by (auto split: if_splits)
  with mode got show ?thesis by simp
qed

theorem getSetting_without_store:
  "getSetting (initial_params (js ''none'')) jquery_launch (js ''appCache'') = Inr JUndefined"
  by code_simp

theorem settings_keys_witness:
  "get_prop (initial_params (js ''local_storage'')) (js ''storeType'') = JStr (js ''local_storage'')
   \<and> get_prop (initial_params (js ''local_storage'')) (js ''keyPrefix'') = JStr (js ''kiwixjs-'')
   \<and> setSetting (initial_params (js ''local_storage'')) (js ''appTheme'') (JStr (js ''dark''))
         jquery_launch
       = Done (jquery_launch\<lparr>localStorage :=
                 (localStorage jquery_launch)(js ''kiwixjs-'' @ js ''appTheme'' \<mapsto> js ''dark'')\<rparr>)
   \<and> get_prop (initial_params (js ''cookie'')) (js ''storeType'') = JStr (js ''cookie'')
   \<and> plain_name (js ''appTheme'')
   \<and> cookies_ok [(js ''appTheme'', js ''dark_invert'')]
   \<and> getSetting (initial_params (js ''cookie''))
         (jquery_launch\<lparr>cookieJar := [(js ''appTheme'', js ''dark_invert'')]\<rparr>) (js ''appTheme'')
       = Inr (JStr (js ''dark_invert''))"
proof -
  have mode: "get_prop (initial_params (js ''local_storage'')) (js ''storeType'')
                = JStr (js ''local_storage'')"
    and pre: "get_prop (initial_params (js ''local_storage'')) (js ''keyPrefix'')
                = JStr (js ''kiwixjs-'')"
    by code_simp+
  have cookie: "get_prop (initial_params (js ''cookie'')) (js ''storeType'') = JStr (js ''cookie'')"
    and name: "plain_name (js ''appTheme'')"
    and jar: "cookies_ok [(js ''appTheme'', js ''dark_invert'')]"
    and held: "cookie_value [(js ''appTheme'', js ''dark_invert'')] (js ''appTheme'')
                 = Some (js ''dark_invert'')"
    and decoded: "decodeURIComponent (js ''dark_invert'') = Inr (js ''dark_invert'')"
    and val: "setting_value (JStr (js ''dark_invert'')) = JStr (js ''dark_invert'')"
    by code_simp+
  from settings_keys [of "initial_params (js ''cookie'')" "js ''appTheme''" "JStr (js ''dark'')"
      "jquery_launch\<lparr>cookieJar := [(js ''appTheme'', js ''dark_invert'')]\<rparr>"]
    cookie name jar held decoded val
  have read: "getSetting (initial_params (js ''cookie''))
         (jquery_launch\<lparr>cookieJar := [(js ''appTheme'', js ''dark_invert'')]\<rparr>) (js ''appTheme'')
       = Inr (JStr (js ''dark_invert''))"
    by simp
  from settings_keys [of "initial_params (js ''local_storage'')" "js ''appTheme''"
      "JStr (js ''dark'')" jquery_launch] mode pre
  have written: "setSetting (initial_params (js ''local_storage'')) (js ''appTheme'')
         (JStr (js ''dark'')) jquery_launch
       = Done (jquery_launch\<lparr>localStorage :=
                 (localStorage jquery_launch)(js ''kiwixjs-'' @ js ''appTheme'' \<mapsto> js ''dark'')\<rparr>)"
    by simp
  from mode pre written cookie name jar read show ?thesis by simp
qed

theorem setSetting_cookie_has_no_prefix:
  "cookieJar (state_of (setSetting (initial_params (js ''cookie'')) (js ''appTheme'')
      (JStr (js ''dark'')) jquery_launch)) = [(js ''appTheme'', js ''dark'')]
   \<and> localStorage (state_of (setSetting (initial_params (js ''cookie'')) (js ''appTheme'')
      (JStr (js ''dark'')) jquery_launch)) (js ''kiwixjs-appTheme'') = None
   \<and> getSetting (initial_params (js ''cookie''))
        (state_of (setSetting (initial_params (js ''cookie'')) (js ''appTheme'')
           (JStr (js ''dark'')) jquery_launch)) (js ''appTheme'') = Inr (JStr (js ''dark''))
   \<and> getSetting (initial_params (js ''cookie''))
        (state_of (setSetting (initial_params (js ''cookie'')) (js ''appTheme'')
           (JStr (js ''dark'')) jquery_launch)) (js ''kiwixjs-appTheme'') = Inr JNull"
  by code_simp

theorem setSetting_last_write_wins_witness:
  "get_prop (initial_params (js ''local_storage'')) (js ''storeType'') = JStr (js ''local_storage'')
   \<and> js ''appCache'' \<noteq> js ''appTheme''
   \<and> getSetting (initial_params (js ''local_storage''))
         (state_of (setSetting (initial_params (js ''local_storage'')) (js ''appTheme'')
            (JStr (js ''light''))
            (state_of (setSetting (initial_params (js ''local_storage'')) (js ''appTheme'')
               (JStr (js ''dark'')) jquery_launch))))
         (js ''appTheme'') = Inr (JStr (js ''light''))
   \<and> getSetting (initial_params (js ''local_storage''))
         (state_of (setSetting (initial_params (js ''local_storage'')) (js ''appTheme'')
            (JStr (js ''dark'')) jquery_launch))
         (js ''appCache'') = Inr (JBool False)
   \<and> get_prop (initial_params (js ''cookie'')) (js ''storeType'') = JStr (js ''cookie'')
   \<and> plain_name (js ''appTheme'') \<and> plain_name (js ''appCache'')
   \<and> cookies_ok (cookieJar jquery_launch)
   \<and> getSetting (initial_params (js ''cookie''))
         (state_of (setSetting (initial_params (js ''cookie'')) (js ''appTheme'')
            (JStr (js ''light''))
            (state_of (setSetting (initial_params (js ''cookie'')) (js ''appTheme'')
               (JStr (js ''dark'')) jquery_launch))))
         (js ''appTheme'') = Inr (JStr (js ''light''))
   \<and> getSetting (initial_params (js ''cookie''))
         (state_of (setSetting (initial_params (js ''cookie'')) (js ''appTheme'')
            (JStr (js ''dark'')) jquery_launch))
         (js ''appCache'') = Inr JNull"
proof -
  let ?p = "initial_params (js ''local_storage'')"
  let ?c = "initial_params (js ''cookie'')"
  have mode: "get_prop ?p (js ''storeType'') = JStr (js ''local_storage'')" by code_simp
  have ne: "js ''appCache'' \<noteq> js ''appTheme''" by (simp add: js_def ch_def)
  have nc: "get_prop ?p (js ''storeType'') \<noteq> JStr (js ''cookie'')"
    unfolding mode by (simp add: js_def ch_def)
  have before: "getSetting ?p jquery_launch (js ''appCache'') = Inr (JBool False)" by code_simp
  have light: "setting_value (JStr (to_string (JStr (js ''light'')))) = JStr (js ''light'')"
    "to_string (JStr (js ''light'')) \<noteq> []"
    by code_simp+
  have cookie: "get_prop ?c (js ''storeType'') = JStr (js ''cookie'')" by code_simp
  have names: "plain_name (js ''appTheme'')" "plain_name (js ''appCache'')" by code_simp+
  have jar: "cookies_ok (cookieJar jquery_launch)" by code_simp
  have none: "getSetting ?c jquery_launch (js ''appCache'') = Inr JNull" by code_simp
  have "case setSetting ?c (js ''appTheme'') (JStr (js ''light'')) jquery_launch of
          Done b2 \<Rightarrow> True | Thrown e b' \<Rightarrow> False"
    by code_simp
  then obtain b2 where
    run: "setSetting ?c (js ''appTheme'') (JStr (js ''light'')) jquery_launch = Done b2"
    by (auto split: outcome.splits)
  from setSetting_last_write_wins [of ?c "js ''appTheme''" "JStr (js ''light'')" jquery_launch
      "JStr (js ''dark'')" "js ''appCache''"] run cookie names jar light ne none
  have in_cookies: "getSetting ?c
         (state_of (setSetting ?c (js ''appTheme'') (JStr (js ''light''))
            (state_of (setSetting ?c (js ''appTheme'') (JStr (js ''dark'')) jquery_launch))))
         (js ''appTheme'') = Inr (JStr (js ''light''))
     \<and> getSetting ?c
         (state_of (setSetting ?c (js ''appTheme'') (JStr (js ''dark'')) jquery_launch))
         (js ''appCache'') = Inr JNull"
    by (simp add: state_of_def)
  from setSetting_last_write_wins [of ?p "js ''appTheme''" "JStr (js ''light'')" jquery_launch
      "JStr (js ''dark'')" "js ''appCache''"] mode ne nc before light
  have in_storage: "getSetting ?p
         (state_of (setSetting ?p (js ''appTheme'') (JStr (js ''light''))
            (state_of (setSetting ?p (js ''appTheme'') (JStr (js ''dark'')) jquery_launch))))
         (js ''appTheme'') = Inr (JStr (js ''light''))
     \<and> getSetting ?p
         (state_of (setSetting ?p (js ''appTheme'') (JStr (js ''dark'')) jquery_launch))
         (js ''appCache'') = Inr (JBool False)"
    by simp
  from in_storage in_cookies mode ne cookie names jar show ?thesis by simp
qed

theorem cookie_write_under_encoded_name:
  "getSetting (initial_params (js ''cookie'')) jquery_launch (js ''a%20b'') = Inr JNull
   \<and> getSetting (initial_params (js ''cookie''))
         (state_of (setSetting (initial_params (js ''cookie'')) (js ''a b'') (JStr (js ''x''))
            jquery_launch))
         (js ''a%20b'') = Inr (JStr (js ''x''))
   \<and> getSetting (initial_params (js ''cookie''))
         (state_of (setSetting (initial_params (js ''cookie'')) (js ''a b'') (JStr (js ''y''))
            (state_of (setSetting (initial_params (js ''cookie'')) (js ''a b'') (JStr (js ''x''))
               jquery_launch))))
         (js ''a b'') = Inr JNull"
  by code_simp

theorem applyAppTheme_dark_invert_witness:
  "theme_page reader_page
   \<and> (\<exists>pg'. applyAppTheme (js ''dark_invert'') reader_page = Done pg'
         \<and> js ''dark'' \<in> set (htmlClassList pg')
         \<and> (\<exists>cs. footer pg' = Some cs \<and> js ''_invert'' \<in> set cs))"
proof -
  have page: "theme_page reader_page" by code_simp
  from applyAppTheme_dark_invert [of reader_page] page show ?thesis by blast
qed

text \<open>
  On a page whose frame document has no head, \<open>applyAppTheme\<close> is left by the
  \<open>TypeError\<close> of \<open>doc.head.appendChild\<close>, after the classes have been set.
\<close>

lemma applyAppTheme_without_head:
  "(case applyAppTheme (js ''dark_invert'') page_without_head of
      Done s \<Rightarrow> False
    | Thrown e s \<Rightarrow>
        e = TypeError \<and> htmlClassList s = [js ''dark''] \<and> footer s = Some [js ''_invert''])"
  by code_simp

theorem systemAlert_promise_witness:
  "modal_elements reader_page
   \<and> promises (modal_run
        [Alert (JStr (js ''Saved'')) JUndefined (JBool False) JUndefined JUndefined JUndefined,
         Hide (js ''approveConfirm''), Hide (js ''closeMessage'')]
        (snd (systemAlert (JStr (js ''Delete the file?'')) JUndefined (JBool True) JUndefined
                JUndefined JUndefined reader_page))) ! 0
       = Fulfilled (JBool True)
   \<and> promises (modal_run [Hide (js ''approveConfirm'')]
        (snd (systemAlert (JStr []) JUndefined (JBool True) JUndefined JUndefined JUndefined
                reader_page))) ! 0
       = Rejected (Reason (JStr (js ''Missing body message'')))
   \<and> \<not> modal_elements page_without_modal_text
   \<and> promises (modal_run [Hide (js ''approveConfirm'')]
        (snd (systemAlert (JStr (js ''Delete the file?'')) JUndefined (JBool True) JUndefined
                JUndefined JUndefined page_without_modal_text))) ! 0
       = Rejected (Exception TypeError)"
proof -
  have page: "modal_elements reader_page" "\<not> modal_elements page_without_modal_text"
    by code_simp+
  have first: "length (promises reader_page) = 0" "length (promises page_without_modal_text) = 0"
    by (simp_all add: reader_page_def page_without_modal_text_def)
  have m: "truthy (JStr (js ''Delete the file?''))" "\<not> truthy (JStr [])" by code_simp+
  from systemAlert_promise [of "JStr (js ''Delete the file?'')" JUndefined "JBool True"
      JUndefined JUndefined JUndefined reader_page, THEN conjunct2,
      THEN spec [where x = "[Alert (JStr (js ''Saved'')) JUndefined (JBool False) JUndefined
                              JUndefined JUndefined,
                             Hide (js ''approveConfirm''), Hide (js ''closeMessage'')]"]]
  have confirmed: "promises (modal_run
        [Alert (JStr (js ''Saved'')) JUndefined (JBool False) JUndefined JUndefined JUndefined,
         Hide (js ''approveConfirm''), Hide (js ''closeMessage'')]
        (snd (systemAlert (JStr (js ''Delete the file?'')) JUndefined (JBool True) JUndefined
                JUndefined JUndefined reader_page))) ! 0
       = Fulfilled (JBool True)"
    using m first page by simp
  from systemAlert_promise [of "JStr []" JUndefined "JBool True" JUndefined JUndefined
      JUndefined reader_page, THEN conjunct2, THEN spec [where x = "[Hide (js ''approveConfirm'')]"]]
  have missing: "promises (modal_run [Hide (js ''approveConfirm'')]
        (snd (systemAlert (JStr []) JUndefined (JBool True) JUndefined JUndefined JUndefined
                reader_page))) ! 0
       = Rejected (Reason (JStr (js ''Missing body message'')))"
    using m first by simp
  from systemAlert_promise [of "JStr (js ''Delete the file?'')" JUndefined "JBool True"
      JUndefined JUndefined JUndefined page_without_modal_text, THEN conjunct2,
      THEN spec [where x = "[Hide (js ''approveConfirm'')]"]]
  have thrown: "promises (modal_run [Hide (js ''approveConfirm'')]
        (snd (systemAlert (JStr (js ''Delete the file?'')) JUndefined (JBool True) JUndefined
                JUndefined JUndefined page_without_modal_text))) ! 0
       = Rejected (Exception TypeError)"
    using m first page by simp
  from page confirmed missing thrown show ?thesis by simp
qed

theorem systemAlert_rejects_without_element:
  "truthy (JStr (js ''Delete the file?''))
   \<and> promises (snd (systemAlert (JStr (js ''Delete the file?'')) JUndefined (JBool True)
        JUndefined JUndefined JUndefined page_without_modal_text)) ! 0
       = Rejected (Exception TypeError)"
  by code_simp

theorem alert_listeners_attached_once_witness:
  "alerts_state [] [] [] [] False False reader_page
   \<and> alerts_state [] [] [] [] True True
       (alert_run [ActiveContentWarning, DismissActiveContent, ActiveContentWarning,
                   FileDownloadAlert (js ''A/report.pdf'') (JBool True) JUndefined,
                   DismissDownloadAlert,
                   FileDownloadAlert (js ''A/report.pdf'') (JStr (js ''report.pdf'')) JUndefined]
          reader_page)
   \<and> (\<exists>a. elements (alert_run [ActiveContentWarning, DismissActiveContent] reader_page)
              (js ''activeContent'') = Some a
         \<and> alert_run ([ActiveContentWarning, DismissActiveContent] @ [ActiveContentWarning])
               reader_page
             = (alert_run [ActiveContentWarning, DismissActiveContent] reader_page)\<lparr>elements :=
                  (elements (alert_run [ActiveContentWarning, DismissActiveContent] reader_page))
                    (js ''activeContent'' \<mapsto> a\<lparr>display := []\<rparr>)\<rparr>)"
proof -
  have e: "elements reader_page (js ''activeContent'') = Some plain_element"
    "elements reader_page (js ''swModeLink'') = Some plain_element"
    "elements reader_page (js ''stop'') = Some plain_element"
    "elements reader_page (js ''downloadAlert'') = Some plain_element"
    by code_simp+
  have start: "alerts_state [] [] [] [] False False reader_page"
    unfolding alerts_state_def using e by (simp add: plain_element_def reader_page_def)
  from alert_listeners_attached_once [OF start,
      of "[ActiveContentWarning, DismissActiveContent, ActiveContentWarning,
           FileDownloadAlert (js ''A/report.pdf'') (JBool True) JUndefined,
           DismissDownloadAlert,
           FileDownloadAlert (js ''A/report.pdf'') (JStr (js ''report.pdf'')) JUndefined]"]
    alert_listeners_attached_once [OF start, of "[ActiveContentWarning, DismissActiveContent]"]
    start
  show ?thesis by simp
qed

end
